theory Spec2Isabelle
  imports Complex_Main "HOL-Library.Word"
begin

section \<open>WarPlan: data model of \<open>main.c\<close>\<close>

text \<open>
  \<open>unsigned int\<close> is a 32-bit word: \<open>+\<close> and \<open>-\<close> wrap around modulo \<open>2 ^ 32\<close>.
  The fixed-size arrays of the C structs, used together with an element count, are lists.
\<close>

type_synonym uint = "32 word"

datatype combinations_state = combinations_exhausted | combinations_remain

definition MAX_TERRITORY_VECTOR_SIZE :: nat where
  "MAX_TERRITORY_VECTOR_SIZE = 128"

definition MAX_ATTACK_VECTORS :: nat where
  "MAX_ATTACK_VECTORS = 16"

definition MIN_TERRITORY_UNITS :: uint where
  "MIN_TERRITORY_UNITS = 1"

definition MAX_ATTACK_DICE_COUNT :: uint where
  "MAX_ATTACK_DICE_COUNT = 3"

definition MAX_DEFEND_DICE_COUNT :: uint where
  "MAX_DEFEND_DICE_COUNT = 2"

definition DICE_SIDES :: uint where
  "DICE_SIDES = 6"

definition UINT_MAX :: uint where
  "UINT_MAX = 4294967295"

definition MAX_DICE_RAND_VALUE :: uint where
  "MAX_DICE_RAND_VALUE = (UINT_MAX div DICE_SIDES) * DICE_SIDES"

record territory_def =
  units :: uint

record attack_vector_def =
  def_string :: string
  units_on_front :: uint
  territory_vector :: "territory_def list"

definition territory_count :: "attack_vector_def \<Rightarrow> nat" where
  "territory_count attack_vector = length (territory_vector attack_vector)"

record attack_result =
  conquered_territory_count :: uint
  result_units_on_front :: uint
  enemy_units_on_front :: uint

text \<open>
  \<open>float\<close> values: the special values of IEEE binary32 arithmetic and the finite values,
  each finite value as the rational number it stands for. The arithmetic on them, with
  its rounding, follows in the next section.
\<close>

datatype cfloat = NaN | NegInf | Finite rat | PosInf

record attack_prediction =
  win_likelihood :: cfloat
  estimated_remaining_units_if_win :: cfloat
  estimated_remaining_enemies_if_loss :: cfloat
  estimated_remaining_territories_if_loss :: cfloat
  win_count :: uint
  loss_count :: uint

text \<open>
  A setup points to its attack vector and a plan points to its setups; vectors and setups
  are not written after they are built, so the model holds them by value. The
  \<open>setup_count\<close> of a plan is the length of \<open>setups\<close>; the array \<open>setups\<close> of the struct
  has \<open>MAX_ATTACK_VECTORS\<close> cells, so the list stands for it as long as there are at most
  that many attack vectors. The fields of a setup carry the prefix \<open>setup_\<close>, since the
  functions below use the plain names for their locals.
\<close>

record attack_setup =
  setup_prediction :: attack_prediction
  setup_attack_vector :: attack_vector_def
  setup_bonus :: uint
  setup_score :: cfloat

record attack_plan =
  total_score :: cfloat
  setups :: "attack_setup list"

section \<open>\<open>float\<close> arithmetic\<close>

text \<open>
  A finite binary32 value is \<open>m * 2 ^ k\<close> with \<open>m < 2 ^ 24\<close> and \<open>- 149 \<le> k\<close>. Every
  operation returns the value nearest to its exact result, the one with an even \<open>m\<close> on
  a tie, and an infinity from \<open>2 ^ 128\<close> on. \<open>bit_length n\<close> is the number of binary
  digits of \<open>n\<close>, and \<open>binary_exponent x\<close> the \<open>e\<close> with \<open>2 ^ e \<le> x < 2 ^ (e + 1)\<close>, for a
  positive \<open>x\<close>.
\<close>

function bit_length :: "int \<Rightarrow> int" where
  "bit_length n = (if n \<le> 0 then 0 else bit_length (n div 2) + 1)"
  by auto

termination
  by (relation "measure nat") auto

declare bit_length.simps [simp del]

definition pow2 :: "int \<Rightarrow> rat" where
  "pow2 k = (if 0 \<le> k then 2 ^ nat k else 1 / 2 ^ nat (- k))"

definition binary_exponent :: "rat \<Rightarrow> int" where
  "binary_exponent x =
     (if 1 \<le> x then bit_length \<lfloor>x\<rfloor> - 1
      else (let j = bit_length \<lfloor>1 / x\<rfloor> - 1
            in if x = pow2 (- j) then - j else - j - 1))"

definition round_half_even :: "rat \<Rightarrow> int" where
  "round_half_even x =
     (let n = \<lfloor>x\<rfloor>; r = x - of_int n
      in if r < 1 / 2 then n
         else if 1 / 2 < r then n + 1
         else if even n then n else n + 1)"

text \<open>The rounding of a number \<open>x \<ge> 0\<close>, before the test for overflow.\<close>

definition round_magnitude :: "rat \<Rightarrow> rat" where
  "round_magnitude x =
     (if x = 0 then 0
      else (let ulp = pow2 (max (binary_exponent x) (- 126) - 23)
            in of_int (round_half_even (x / ulp)) * ulp))"

definition binary32 :: "rat \<Rightarrow> cfloat" where
  "binary32 x =
     (if 0 \<le> x
      then (let y = round_magnitude x in if 2 ^ 128 \<le> y then PosInf else Finite y)
      else (let y = round_magnitude (- x) in if 2 ^ 128 \<le> y then NegInf else Finite (- y)))"

text \<open>
  The cast \<open>(float)a\<close> of an \<open>unsigned int\<close>: the value is below \<open>2 ^ 128\<close>, so the result
  is finite.
\<close>

definition float_of_uint :: "uint \<Rightarrow> rat" where
  "float_of_uint a = round_magnitude (of_int (uint a))"

text \<open>Comparison and addition of \<open>float\<close> values; every comparison with a NaN is false.\<close>

fun float_less :: "cfloat \<Rightarrow> cfloat \<Rightarrow> bool" where
  "float_less NaN b = False"
| "float_less a NaN = False"
| "float_less NegInf NegInf = False"
| "float_less NegInf b = True"
| "float_less (Finite x) (Finite y) = (x < y)"
| "float_less (Finite x) PosInf = True"
| "float_less (Finite x) NegInf = False"
| "float_less PosInf b = False"

definition float_ge :: "cfloat \<Rightarrow> cfloat \<Rightarrow> bool" where
  "float_ge a b = (a \<noteq> NaN \<and> b \<noteq> NaN \<and> \<not> float_less a b)"

fun float_add :: "cfloat \<Rightarrow> cfloat \<Rightarrow> cfloat" where
  "float_add NaN b = NaN"
| "float_add a NaN = NaN"
| "float_add (Finite x) (Finite y) = binary32 (x + y)"
| "float_add PosInf NegInf = NaN"
| "float_add NegInf PosInf = NaN"
| "float_add PosInf b = PosInf"
| "float_add a PosInf = PosInf"
| "float_add NegInf b = NegInf"
| "float_add a NegInf = NegInf"

section \<open>Dice engine\<close>

text \<open>
  The process-wide stream of \<open>rand()\<close> is a function \<open>g\<close> from positions to raw values
  together with the current position \<open>i\<close>; every function that rolls dice returns the
  position it has advanced to. \<open>rand()\<close> returns an \<open>int\<close> between 0 and \<open>RAND_MAX\<close>,
  so a raw value is a non-negative 32-bit \<open>int\<close>, that is 31 bits; the assignment to
  \<open>rand_value\<close> converts it to \<open>unsigned int\<close>.
\<close>

type_synonym rand_stream = "nat \<Rightarrow> 31 word"

text \<open>
  \<open>UniformDiceRoll\<close>: the \<open>do ... while(rand_value >= MAX_DICE_RAND_VALUE)\<close> loop. The
  result \<open>None\<close> stands for a loop that never exits.
\<close>

partial_function (option) UniformDiceRoll :: "rand_stream \<Rightarrow> nat \<Rightarrow> (uint \<times> nat) option" where
  "UniformDiceRoll g i =
     (let rand_value = (ucast (g i) :: uint)
      in if rand_value \<ge> MAX_DICE_RAND_VALUE then UniformDiceRoll g (Suc i)
         else Some ((rand_value mod DICE_SIDES) + 1, Suc i))"

declare UniformDiceRoll.simps [code]

text \<open>
  \<open>CompareDice\<close>: both values are cast to \<open>int\<close> and subtracted; a positive result puts
  \<open>right\<close> first, which sorts in descending order.
\<close>

definition CompareDice :: "uint \<Rightarrow> uint \<Rightarrow> int" where
  "CompareDice left_value right_value = sint right_value - sint left_value"

text \<open>
  The C library's \<open>qsort\<close>, as an insertion sort under the comparator: \<open>cmp x y \<le> 0\<close>
  lets \<open>x\<close> stand before \<open>y\<close>.
\<close>

fun qsort_insert :: "('a \<Rightarrow> 'a \<Rightarrow> int) \<Rightarrow> 'a \<Rightarrow> 'a list \<Rightarrow> 'a list" where
  "qsort_insert cmp x [] = [x]"
| "qsort_insert cmp x (y # ys) =
     (if cmp x y \<le> 0 then x # y # ys else y # qsort_insert cmp x ys)"

fun qsort :: "('a \<Rightarrow> 'a \<Rightarrow> int) \<Rightarrow> 'a list \<Rightarrow> 'a list" where
  "qsort cmp [] = []"
| "qsort cmp (x # xs) = qsort_insert cmp x (qsort cmp xs)"

text \<open>
  The filling loop of \<open>RollDice\<close> runs \<open>index\<close> from \<open>count - 1\<close> down to 0, so the first
  value drawn lands in the last cell.
\<close>

fun RollDice_fill :: "rand_stream \<Rightarrow> nat \<Rightarrow> nat \<Rightarrow> (uint list \<times> nat) option" where
  "RollDice_fill g i 0 = Some ([], i)"
| "RollDice_fill g i (Suc index) =
     (case UniformDiceRoll g i of
        None \<Rightarrow> None
      | Some (dice_value, i') \<Rightarrow>
          (case RollDice_fill g i' index of
             None \<Rightarrow> None
           | Some (dice, i'') \<Rightarrow> Some (dice @ [dice_value], i'')))"

definition RollDice :: "rand_stream \<Rightarrow> nat \<Rightarrow> nat \<Rightarrow> (uint list \<times> nat) option" where
  "RollDice g i count =
     (case RollDice_fill g i count of
        None \<Rightarrow> None
      | Some (dice, i') \<Rightarrow> Some (qsort CompareDice dice, i'))"

section \<open>Combat resolver\<close>

text \<open>The comparison loop of \<open>SingleAttack\<close>, over \<open>index = 0 ..< compare_dice_count\<close>.\<close>

definition compare_dice :: "uint list \<Rightarrow> uint list \<Rightarrow> nat \<Rightarrow> uint \<times> uint" where
  "compare_dice attack_dice defend_dice compare_dice_count =
     fold (\<lambda>index (lost_attack_units, lost_defend_units).
             if attack_dice ! index > defend_dice ! index
             then (lost_attack_units, lost_defend_units + 1)
             else (lost_attack_units + 1, lost_defend_units))
          [0 ..< compare_dice_count] (0, 0)"

definition SingleAttack :: "rand_stream \<Rightarrow> nat \<Rightarrow> uint \<Rightarrow> uint \<Rightarrow> (uint \<times> uint \<times> nat) option" where
  "SingleAttack g i front territory_units =
     (let attack_unit_count = front - MIN_TERRITORY_UNITS;
          attack_dice_count = min attack_unit_count MAX_ATTACK_DICE_COUNT;
          defend_unit_count = territory_units;
          defend_dice_count = min defend_unit_count MAX_DEFEND_DICE_COUNT
      in case RollDice g i (unat attack_dice_count) of
           None \<Rightarrow> None
         | Some (attack_dice, i1) \<Rightarrow>
             (case RollDice g i1 (unat defend_dice_count) of
                None \<Rightarrow> None
              | Some (defend_dice, i2) \<Rightarrow>
                  (let compare_dice_count = min attack_dice_count defend_dice_count;
                       (lost_attack_units, lost_defend_units) =
                          compare_dice attack_dice defend_dice (unat compare_dice_count)
                   in Some (front - lost_attack_units,
                            territory_units - lost_defend_units, i2))))"

text \<open>
  \<open>AttackTerritory\<close>: the \<open>while\<close> loop around \<open>SingleAttack\<close>; \<open>None\<close> stands for a loop
  that never exits.
\<close>

partial_function (option) AttackTerritory ::
    "rand_stream \<Rightarrow> nat \<Rightarrow> uint \<Rightarrow> uint \<Rightarrow> (uint \<times> uint \<times> nat) option" where
  "AttackTerritory g i front_units territory_units =
     (if front_units > MIN_TERRITORY_UNITS \<and> territory_units > 0
      then (case SingleAttack g i front_units territory_units of
              None \<Rightarrow> None
            | Some (front_units', territory_units', i') \<Rightarrow>
                AttackTerritory g i' front_units' territory_units')
      else Some (front_units, territory_units, i))"

declare AttackTerritory.simps [code]

text \<open>
  \<open>SimAttack\<close>: the loop over the territories, with \<open>cursor\<close> the offset of
  \<open>territory_cursor\<close> from \<open>territory_vector\<close>. The local
  \<open>remaining_territory_units\<close> has no initialiser; it is read only after the first
  \<open>AttackTerritory\<close> wrote it, unless the vector has no territory.
\<close>

fun SimAttack_loop ::
    "rand_stream \<Rightarrow> nat \<Rightarrow> uint \<Rightarrow> uint \<Rightarrow> nat \<Rightarrow> territory_def list \<Rightarrow>
     (nat \<times> uint \<times> uint \<times> nat) option" where
  "SimAttack_loop g i front remaining_territory_units cursor [] =
     Some (cursor, front, remaining_territory_units, i)"
| "SimAttack_loop g i front remaining_territory_units cursor (territory # rest) =
     (case AttackTerritory g i front (units territory) of
        None \<Rightarrow> None
      | Some (remaining_units_on_front, remaining_territory_units', i') \<Rightarrow>
          if remaining_territory_units' = 0
          then SimAttack_loop g i' (remaining_units_on_front - MIN_TERRITORY_UNITS)
                 remaining_territory_units' (Suc cursor) rest
          else Some (cursor, remaining_units_on_front, remaining_territory_units', i'))"

definition SimAttack ::
    "rand_stream \<Rightarrow> nat \<Rightarrow> attack_vector_def \<Rightarrow> uint \<Rightarrow> (attack_result \<times> nat) option" where
  "SimAttack g i attack_vector bonus_units =
     (case SimAttack_loop g i (units_on_front attack_vector + bonus_units) undefined 0
             (territory_vector attack_vector) of
        None \<Rightarrow> None
      | Some (cursor, front, remaining_territory_units, i') \<Rightarrow>
          Some (\<lparr>conquered_territory_count = of_nat cursor,
                 result_units_on_front = front,
                 enemy_units_on_front = remaining_territory_units\<rparr>, i'))"

section \<open>Outcome predictor\<close>

text \<open>
  \<open>(float)a/(float)b\<close> for two \<open>unsigned int\<close> values: both are cast, which rounds them,
  and the quotient is rounded; \<open>0/0\<close> is a NaN and a positive value divided by 0 is
  plus infinity.
\<close>

definition float_ratio :: "uint \<Rightarrow> uint \<Rightarrow> cfloat" where
  "float_ratio a b =
     (if b = 0 then (if a = 0 then NaN else PosInf)
      else binary32 (float_of_uint a / float_of_uint b))"

text \<open>The five counters of \<open>PredictAttack\<close>.\<close>

record predict_counters =
  c_win_count :: uint
  c_total_units_on_front :: uint
  c_loss_count :: uint
  c_total_enemy_units_remaining :: uint
  c_total_territories_remaining :: uint

text \<open>
  The inner loop of the loss branch, over
  \<open>index = conquered_territory_count + 1 ..< territory_count\<close>.
\<close>

definition enemy_units_remaining :: "attack_vector_def \<Rightarrow> attack_result \<Rightarrow> uint" where
  "enemy_units_remaining attack_vector result =
     fold (\<lambda>index remaining. remaining + units (territory_vector attack_vector ! index))
          [unat (conquered_territory_count result + 1) ..< territory_count attack_vector]
          (enemy_units_on_front result)"

text \<open>One pass of the simulation loop of \<open>PredictAttack\<close>.\<close>

definition PredictAttack_run ::
    "rand_stream \<Rightarrow> nat \<Rightarrow> attack_vector_def \<Rightarrow> uint \<Rightarrow> predict_counters \<Rightarrow>
     (predict_counters \<times> nat) option" where
  "PredictAttack_run g i attack_vector bonus_units c =
     (case SimAttack g i attack_vector bonus_units of
        None \<Rightarrow> None
      | Some (result, i') \<Rightarrow>
          if enemy_units_on_front result = 0
          then Some (c\<lparr>c_win_count := c_win_count c + 1,
                       c_total_units_on_front :=
                         c_total_units_on_front c + result_units_on_front result\<rparr>, i')
          else Some (c\<lparr>c_loss_count := c_loss_count c + 1,
                       c_total_enemy_units_remaining :=
                         c_total_enemy_units_remaining c +
                           enemy_units_remaining attack_vector result,
                       c_total_territories_remaining :=
                         c_total_territories_remaining c +
                           (of_nat (territory_count attack_vector) -
                              conquered_territory_count result)\<rparr>, i'))"

fun PredictAttack_loop ::
    "rand_stream \<Rightarrow> nat \<Rightarrow> attack_vector_def \<Rightarrow> uint \<Rightarrow> nat \<Rightarrow> predict_counters \<Rightarrow>
     (predict_counters \<times> nat) option" where
  "PredictAttack_loop g i attack_vector bonus_units 0 c = Some (c, i)"
| "PredictAttack_loop g i attack_vector bonus_units (Suc remaining) c =
     (case PredictAttack_run g i attack_vector bonus_units c of
        None \<Rightarrow> None
      | Some (c', i') \<Rightarrow> PredictAttack_loop g i' attack_vector bonus_units remaining c')"

definition PredictAttack ::
    "rand_stream \<Rightarrow> nat \<Rightarrow> attack_vector_def \<Rightarrow> uint \<Rightarrow> uint \<Rightarrow>
     (attack_prediction \<times> nat) option" where
  "PredictAttack g i attack_vector bonus_units sim_iterations =
     (case PredictAttack_loop g i attack_vector bonus_units (unat sim_iterations)
             \<lparr>c_win_count = 0, c_total_units_on_front = 0, c_loss_count = 0,
              c_total_enemy_units_remaining = 0, c_total_territories_remaining = 0\<rparr> of
        None \<Rightarrow> None
      | Some (c, i') \<Rightarrow>
          Some (\<lparr>win_likelihood = float_ratio (c_win_count c) (c_win_count c + c_loss_count c),
                 estimated_remaining_units_if_win =
                   float_ratio (c_total_units_on_front c) (c_win_count c),
                 estimated_remaining_enemies_if_loss =
                   float_ratio (c_total_enemy_units_remaining c) (c_loss_count c),
                 estimated_remaining_territories_if_loss =
                   float_ratio (c_total_territories_remaining c) (c_loss_count c),
                 win_count = c_win_count c,
                 loss_count = c_loss_count c\<rparr>, i'))"

section \<open>Allocation planner\<close>

text \<open>
  \<open>ComparePlan\<close> compares the \<open>total_score\<close> of two plans: the plan of the greater score
  comes first.
\<close>

definition ComparePlan :: "attack_plan \<Rightarrow> attack_plan \<Rightarrow> int" where
  "ComparePlan left_plan right_plan =
     (if float_less (total_score left_plan) (total_score right_plan) then 1
      else if float_less (total_score right_plan) (total_score left_plan) then - 1
      else 0)"

text \<open>
  The first phase of \<open>PlanWar\<close>: one row of setups per attack vector, one setup per
  \<open>bonus = 0 .. bonus_units\<close>. The loop over \<open>bonus\<close> tests \<open>bonus <= bonus_units\<close> on
  \<open>unsigned int\<close>; \<open>None\<close> stands for a loop that never exits.
\<close>

partial_function (option) PlanWar_row ::
    "rand_stream \<Rightarrow> nat \<Rightarrow> attack_vector_def \<Rightarrow> cfloat \<Rightarrow> uint \<Rightarrow> uint \<Rightarrow> uint \<Rightarrow>
     (attack_setup list \<times> nat) option" where
  "PlanWar_row g i vector likelihood_threshold sim_iterations bonus bonus_units =
     (if bonus \<le> bonus_units
      then (case PredictAttack g i vector bonus sim_iterations of
              None \<Rightarrow> None
            | Some (p, i') \<Rightarrow>
                (let setup = \<lparr>setup_prediction = p, setup_attack_vector = vector,
                              setup_bonus = bonus,
                              setup_score = (if float_ge (win_likelihood p) likelihood_threshold
                                             then win_likelihood p else Finite 0)\<rparr>
                 in Option.bind
                      (PlanWar_row g i' vector likelihood_threshold sim_iterations
                         (bonus + 1) bonus_units)
                      (\<lambda>(row, i''). Some (setup # row, i''))))
      else Some ([], i))"

declare PlanWar_row.simps [code]

fun PlanWar_setups ::
    "rand_stream \<Rightarrow> nat \<Rightarrow> attack_vector_def list \<Rightarrow> uint \<Rightarrow> cfloat \<Rightarrow> uint \<Rightarrow>
     (attack_setup list list \<times> nat) option" where
  "PlanWar_setups g i [] bonus_units likelihood_threshold sim_iterations = Some ([], i)"
| "PlanWar_setups g i (vector # vectors) bonus_units likelihood_threshold sim_iterations =
     (case PlanWar_row g i vector likelihood_threshold sim_iterations 0 bonus_units of
        None \<Rightarrow> None
      | Some (row, i') \<Rightarrow>
          (case PlanWar_setups g i' vectors bonus_units likelihood_threshold sim_iterations of
             None \<Rightarrow> None
           | Some (rows, i'') \<Rightarrow> Some (row # rows, i'')))"

definition InitCombinations :: "nat \<Rightarrow> uint list" where
  "InitCombinations index_count = replicate index_count 0"

text \<open>
  \<open>NextCombination\<close>: the counter's digit 0 is the head of the list. The caller always
  passes at least one digit (\<open>main\<close> requires an attack vector); the first equation is
  reached when the carry leaves the last digit.
\<close>

fun NextCombination :: "uint list \<Rightarrow> uint \<Rightarrow> combinations_state \<times> uint list" where
  "NextCombination [] last_index = (combinations_exhausted, [])"
| "NextCombination (x # indices) last_index =
     (if x + 1 \<le> last_index then (combinations_remain, (x + 1) # indices)
      else (let (state, indices') = NextCombination indices last_index
            in (state, 0 # indices')))"

text \<open>
  The body of the search loop up to the test of \<open>total_bonus\<close>: \<open>index\<close> runs from
  \<open>attack_vector_count - 1\<close> down to 0, so putting each setup in front of the ones
  already written fills \<open>setups\<close> in index order.
\<close>

definition fill_plan :: "attack_setup list list \<Rightarrow> uint list \<Rightarrow> uint \<times> attack_plan" where
  "fill_plan table bonus_indices =
     fold (\<lambda>index (total_bonus, plan).
             (let bonus = bonus_indices ! index;
                  setup = table ! index ! unat bonus
              in (total_bonus + bonus,
                  \<lparr>total_score = float_add (total_score plan) (setup_score setup),
                   setups = setup # setups plan\<rparr>)))
          (rev [0 ..< length bonus_indices])
          (0, \<lparr>total_score = Finite 0, setups = []\<rparr>)"

text \<open>
  The search loop. \<open>plans\<close> are the plans counted by \<open>plans_count\<close>. The plan filled
  last is returned beside them: as long as no plan was counted, \<open>cursor\<close> stays on
  \<open>plans[0]\<close>, so that is what \<open>plans[0]\<close> holds when the loop ends with \<open>plans_count = 0\<close>.
  \<open>None\<close> stands for a loop that never exits.
\<close>

partial_function (option) PlanWar_loop ::
    "attack_setup list list \<Rightarrow> uint \<Rightarrow> uint list \<Rightarrow> attack_plan list \<Rightarrow>
     (attack_plan list \<times> attack_plan) option" where
  "PlanWar_loop table bonus_units bonus_indices plans =
     (let (total_bonus, plan) = fill_plan table bonus_indices;
          plans' = (if total_bonus \<noteq> bonus_units then plans else plans @ [plan]);
          (state, bonus_indices') = NextCombination bonus_indices bonus_units
      in if state = combinations_remain
         then PlanWar_loop table bonus_units bonus_indices' plans'
         else Some (plans', plan))"

declare PlanWar_loop.simps [code]

text \<open>
  \<open>PlanWar\<close> returns \<open>plans[0]\<close> after the sort of the first \<open>plans_count\<close> plans: the
  plan whose setups it prints. The growth of \<open>plans\<close> by \<open>realloc\<close> is taken to succeed.
\<close>

definition PlanWar ::
    "rand_stream \<Rightarrow> nat \<Rightarrow> attack_vector_def list \<Rightarrow> uint \<Rightarrow> cfloat \<Rightarrow> uint \<Rightarrow>
     (attack_plan \<times> nat) option" where
  "PlanWar g i attack_vectors bonus_units likelihood_threshold sim_iterations =
     (case PlanWar_setups g i attack_vectors bonus_units likelihood_threshold
             sim_iterations of
        None \<Rightarrow> None
      | Some (table, i') \<Rightarrow>
          (case PlanWar_loop table bonus_units
                  (InitCombinations (length attack_vectors)) [] of
             None \<Rightarrow> None
           | Some (plans, slot) \<Rightarrow>
               Some (hd (qsort ComparePlan plans @ [slot]), i')))"

section \<open>The rounds of a fight over a territory\<close>

text \<open>
  A state of a fight is the front units, the units of the territory and the position in
  the random stream. A side is at its floor when the front is down to the unit that must
  stay behind, or when the territory has no unit left.
\<close>

definition at_floor :: "uint \<Rightarrow> uint \<Rightarrow> bool" where
  "at_floor front_units territory_units \<longleftrightarrow>
     front_units = MIN_TERRITORY_UNITS \<or> territory_units = 0"

text \<open>
  \<open>rounds_trace g states\<close>: the list holds the state a fight starts from and the state
  after each of its rounds. Every state but the last has no side at its floor, and the
  state that follows it is the one \<open>SingleAttack\<close> makes of it; the last state has a side
  at its floor, and no round is played from it.
\<close>

fun rounds_trace :: "rand_stream \<Rightarrow> (uint \<times> uint \<times> nat) list \<Rightarrow> bool" where
  "rounds_trace g [] = False"
| "rounds_trace g [(front_units, territory_units, i)] = at_floor front_units territory_units"
| "rounds_trace g ((front_units, territory_units, i) # state # states) =
     (\<not> at_floor front_units territory_units \<and>
      SingleAttack g i front_units territory_units = Some state \<and>
      rounds_trace g (state # states))"

section \<open>Raw values and faces\<close>

text \<open>
  The raw values between 0 and \<open>rand_max\<close> for which \<open>UniformDiceRoll\<close>, drawing that
  value, returns \<open>face\<close> at the first draw.
\<close>

definition raw_values_of_face :: "nat \<Rightarrow> uint \<Rightarrow> 31 word set" where
  "raw_values_of_face rand_max face =
     {r. unat r \<le> rand_max \<and> UniformDiceRoll (\<lambda>k. r) 0 = Some (face, 1)}"

section \<open>Notions used in the statements about the planner\<close>

text \<open>
  The counter of \<open>NextCombination\<close> read as a number: \<open>digits v b n\<close> are the \<open>v\<close> digits
  of \<open>n\<close> in base \<open>b + 1\<close>, the lowest first, and \<open>digits_value\<close> is the number of a digit
  list.
\<close>

primrec digits :: "nat \<Rightarrow> nat \<Rightarrow> nat \<Rightarrow> uint list" where
  "digits 0 b n = []"
| "digits (Suc v) b n = of_nat (n mod Suc b) # digits v b (n div Suc b)"

primrec digits_value :: "nat \<Rightarrow> uint list \<Rightarrow> nat" where
  "digits_value b [] = 0"
| "digits_value b (x # xs) = unat x + Suc b * digits_value b xs"

text \<open>The bonus tuple of a plan, and the setups a bonus tuple selects from the table.\<close>

definition plan_bonuses :: "attack_plan \<Rightarrow> uint list" where
  "plan_bonuses plan = map setup_bonus (setups plan)"

definition chosen_setups :: "attack_setup list list \<Rightarrow> uint list \<Rightarrow> attack_setup list" where
  "chosen_setups table bonus_indices =
     map (\<lambda>k. table ! k ! unat (bonus_indices ! k)) [0 ..< length bonus_indices]"

text \<open>
  The score in the words of the specification: the win likelihood if it reaches the
  likelihood threshold, else 0. It is compared below with the score \<open>PlanWar\<close> stores.
\<close>

definition gated_win_likelihood :: "cfloat \<Rightarrow> cfloat \<Rightarrow> cfloat" where
  "gated_win_likelihood likelihood threshold =
     (if float_ge likelihood threshold then likelihood else Finite 0)"

text \<open>
  The sum of a list of \<open>float\<close> values in \<open>float\<close> arithmetic, every addition rounded,
  taken from the last value to the first: the order in which the search loop adds the
  scores of a plan.
\<close>

definition float_sum :: "cfloat list \<Rightarrow> cfloat" where
  "float_sum xs = foldr (\<lambda>x s. float_add s x) xs (Finite 0)"

text \<open>The total score of a list of setups: the sum of their gated win likelihoods.\<close>

definition gated_total :: "cfloat \<Rightarrow> attack_setup list \<Rightarrow> cfloat" where
  "gated_total threshold chosen =
     float_sum (map (\<lambda>s. gated_win_likelihood (win_likelihood (setup_prediction s)) threshold)
                  chosen)"

text \<open>
  What the first phase of \<open>PlanWar\<close> stores in the cell of a vector and a bonus \<open>b\<close>: the
  prediction of a \<open>PredictAttack\<close> for them and the score derived from it.
\<close>

definition table_setup ::
    "rand_stream \<Rightarrow> attack_vector_def \<Rightarrow> cfloat \<Rightarrow> uint \<Rightarrow> nat \<Rightarrow> attack_setup \<Rightarrow> bool" where
  "table_setup g vector threshold sim_iterations b setup \<longleftrightarrow>
     setup_attack_vector setup = vector \<and> setup_bonus setup = of_nat b \<and>
     (\<exists>i0 i1. PredictAttack g i0 vector (of_nat b) sim_iterations =
                 Some (setup_prediction setup, i1)) \<and>
     setup_score setup =
       gated_win_likelihood (win_likelihood (setup_prediction setup)) threshold"

definition table_ok ::
    "rand_stream \<Rightarrow> attack_vector_def list \<Rightarrow> uint \<Rightarrow> cfloat \<Rightarrow> uint \<Rightarrow>
     attack_setup list list \<Rightarrow> bool" where
  "table_ok g vectors bonus_units thr iters table \<longleftrightarrow>
     length table = length vectors \<and>
     (\<forall>k < length vectors. length (table ! k) = Suc (unat bonus_units) \<and>
        (\<forall>b \<le> unat bonus_units. table_setup g (vectors ! k) thr iters b (table ! k ! b)))"

section \<open>Invariants used in the proofs\<close>

text \<open>A \<open>float\<close> value that is neither a NaN nor negative.\<close>

fun float_nonneg :: "cfloat \<Rightarrow> bool" where
  "float_nonneg (Finite x) = (0 \<le> x)"
| "float_nonneg PosInf = True"
| "float_nonneg NaN = False"
| "float_nonneg NegInf = False"

text \<open>
  The counters of \<open>PredictAttack\<close> after \<open>m\<close> runs: every run was counted once, and a
  sum is still 0 while its count is 0.
\<close>

definition counters_inv :: "predict_counters \<Rightarrow> nat \<Rightarrow> bool" where
  "counters_inv c m \<longleftrightarrow>
     unat (c_win_count c) + unat (c_loss_count c) = m \<and>
     (c_win_count c = 0 \<longrightarrow> c_total_units_on_front c = 0) \<and>
     (c_loss_count c = 0 \<longrightarrow>
        c_total_enemy_units_remaining c = 0 \<and> c_total_territories_remaining c = 0)"

section \<open>Properties of the dice engine\<close>

lemma MAX_DICE_RAND_VALUE_eq: "MAX_DICE_RAND_VALUE = 4294967292"
  by (simp add: MAX_DICE_RAND_VALUE_def UINT_MAX_def DICE_SIDES_def)

lemma unat_raw_less: "unat (r :: 31 word) < 2147483648"
  using unsigned_less [of r, where 'a = nat] by simp

lemma unat_ucast_raw: "unat (ucast (r :: 31 word) :: uint) = unat r"
proof -
  have "unat r < 2 ^ 32" using unat_raw_less [of r] by simp
  then show ?thesis by (simp add: unsigned_ucast_eq take_bit_nat_eq_self)
qed

lemma ucast_raw_accepted: "\<not> (ucast (r :: 31 word) :: uint) \<ge> MAX_DICE_RAND_VALUE"
  using unat_raw_less [of r]
  by (simp add: MAX_DICE_RAND_VALUE_eq word_le_nat_alt unat_ucast_raw)

lemma UniformDiceRoll_eq:
  "UniformDiceRoll g i = Some ((ucast (g i) mod DICE_SIDES) + 1, Suc i)"
  by (subst UniformDiceRoll.simps) (simp only: Let_def ucast_raw_accepted if_False)

lemma unat_dice_value: "unat (((w :: uint) mod DICE_SIDES) + 1) = unat w mod 6 + 1"
  by (simp add: DICE_SIDES_def unat_word_ariths unat_mod)

lemma RollDice_fill_total:
  "\<exists>dice. RollDice_fill g i n = Some (dice, i + n) \<and> length dice = n \<and>
      (\<forall>d \<in> set dice. 1 \<le> unat d \<and> unat d \<le> 6)"
proof (induction n arbitrary: i)
  case 0
  then show ?case by simp
next
  case (Suc n)
  from Suc.IH [of "Suc i"] obtain dice where
    d: "RollDice_fill g (Suc i) n = Some (dice, Suc i + n)" "length dice = n"
       "\<forall>d \<in> set dice. 1 \<le> unat d \<and> unat d \<le> 6" by blast
  have "1 \<le> unat ((ucast (g i) mod DICE_SIDES) + 1 :: uint) \<and>
        unat ((ucast (g i) mod DICE_SIDES) + 1 :: uint) \<le> 6"
    by (simp add: unat_dice_value) 
  with d show ?case by (simp add: UniformDiceRoll_eq)
qed

lemma length_qsort_insert: "length (qsort_insert cmp x ys) = Suc (length ys)"
  by (induction ys) auto

lemma length_qsort: "length (qsort cmp xs) = length xs"
  by (induction xs) (auto simp: length_qsort_insert)

lemma set_qsort_insert: "set (qsort_insert cmp x ys) = insert x (set ys)"
  by (induction ys) auto

lemma set_qsort: "set (qsort cmp xs) = set xs"
  by (induction xs) (auto simp: set_qsort_insert)

lemma sorted_qsort_insert:
  assumes tot: "\<And>a b. cmp a b \<le> 0 \<or> cmp b a \<le> 0"
    and trans: "\<And>a b c. cmp a b \<le> 0 \<Longrightarrow> cmp b c \<le> 0 \<Longrightarrow> cmp a c \<le> 0"
  shows "sorted_wrt (\<lambda>a b. cmp a b \<le> 0) ys \<Longrightarrow> sorted_wrt (\<lambda>a b. cmp a b \<le> 0) (qsort_insert cmp x ys)"
proof (induction ys)
  case Nil
  then show ?case by simp
next
  case (Cons y ys)
  show ?case
  proof (cases "cmp x y \<le> 0")
    case True
    with Cons.prems trans show ?thesis by auto
  next
    case False
    with tot have "cmp y x \<le> 0" by blast
    with False Cons show ?thesis by (auto simp: set_qsort_insert)
  qed
qed

lemma sorted_qsort:
  assumes tot: "\<And>a b. cmp a b \<le> 0 \<or> cmp b a \<le> 0"
    and trans: "\<And>a b c. cmp a b \<le> 0 \<Longrightarrow> cmp b c \<le> 0 \<Longrightarrow> cmp a c \<le> 0"
  shows "sorted_wrt (\<lambda>a b. cmp a b \<le> 0) (qsort cmp xs)"
  by (induction xs) (auto intro: sorted_qsort_insert [OF tot trans])

lemma CompareDice_le: "CompareDice a b \<le> 0 \<longleftrightarrow> sint b \<le> sint a"
  by (simp add: CompareDice_def)

lemma sorted_qsort_CompareDice:
  "sorted_wrt (\<lambda>a b. sint b \<le> sint a) (qsort CompareDice xs)"
proof -
  have "sorted_wrt (\<lambda>a b. CompareDice a b \<le> 0) (qsort CompareDice xs)"
    by (rule sorted_qsort) (auto simp: CompareDice_le)
  then show ?thesis by (simp add: CompareDice_le)
qed

lemma sint_small: "unat (d :: uint) \<le> 6 \<Longrightarrow> sint d = int (unat d)"
proof -
  assume a: "unat d \<le> 6"
  have "int (unat d) \<le> 6" using a by linarith
  then have le: "uint d \<le> 6" by simp
  have ge: "0 \<le> uint d" by simp
  have "- 2147483648 \<le> uint d \<and> uint d < 2147483648" using le ge by linarith
  then have "- (2 ^ 31) \<le> uint d \<and> uint d < 2 ^ 31" by simp
  then have "signed_take_bit (31::nat) (uint d) = uint d"
    by (simp only: signed_take_bit_int_eq_self_iff)
  then have "sint d = uint d" by (simp add: sint_uint)
  then show ?thesis by simp
qed

lemma RollDice_total:
  "\<exists>dice. RollDice g i n = Some (dice, i + n) \<and> length dice = n \<and>
      (\<forall>d \<in> set dice. 1 \<le> unat d \<and> unat d \<le> 6) \<and> sorted_wrt (\<lambda>a b. b \<le> a) dice"
proof -
  obtain dice where
    d: "RollDice_fill g i n = Some (dice, i + n)" "length dice = n"
       "\<forall>d \<in> set dice. 1 \<le> unat d \<and> unat d \<le> 6"
    using RollDice_fill_total by blast
  have "sorted_wrt (\<lambda>a b. sint b \<le> sint a) (qsort CompareDice dice)"
    by (rule sorted_qsort_CompareDice)
  then have "sorted_wrt (\<lambda>a b. b \<le> a) (qsort CompareDice dice)"
    apply (rule sorted_wrt_mono_rel [rotated])
    using d(3) by (simp add: set_qsort sint_small word_le_nat_alt del: of_nat_unat)
  with d show ?thesis
    by (simp add: RollDice_def length_qsort set_qsort)
qed

lemma dice_word_range: "1 \<le> unat (d :: uint) \<and> unat d \<le> 6 \<Longrightarrow> 1 \<le> d \<and> d \<le> 6"
  by (simp add: word_le_nat_alt)

text \<open>
  Claim C9. For a dice count \<open>c\<close> of 1, 2 or 3, \<open>RollDice\<close> returns, and it returns exactly
  \<open>c\<close> values, each between 1 and 6, in descending (non-increasing) order.
\<close>

theorem RollDice_sorted_dice:
  "c \<in> {1, 2, 3} \<Longrightarrow>
     \<exists>dice i'. RollDice g i c = Some (dice, i') \<and> length dice = c \<and>
        (\<forall>d \<in> set dice. 1 \<le> d \<and> d \<le> 6) \<and> sorted_wrt (\<lambda>a b. a \<ge> b) dice"
  using RollDice_total [of g i c] dice_word_range by blast

theorem RollDice_sorted_dice_witness:
  "(3 :: nat) \<in> {1, 2, 3} \<and>
   RollDice (\<lambda>k. if k = 0 then 2 else if k = 1 then 5 else 0) 0 3 = Some ([6, 3, 1], 3) \<and>
   (\<exists>dice i'. RollDice (\<lambda>k. if k = 0 then 2 else if k = 1 then 5 else 0) 0 3 = Some (dice, i') \<and>
      length dice = 3 \<and> (\<forall>d \<in> set dice. 1 \<le> d \<and> d \<le> 6) \<and>
      sorted_wrt (\<lambda>a b. a \<ge> b) dice)"
proof -
  have "RollDice (\<lambda>k. if k = 0 then 2 else if k = 1 then 5 else 0) 0 (Suc (Suc (Suc 0))) =
      Some ([6, 3, 1], Suc (Suc (Suc 0)))"
    by (simp add: RollDice_def UniformDiceRoll_eq DICE_SIDES_def CompareDice_def)
  then have "RollDice (\<lambda>k. if k = 0 then 2 else if k = 1 then 5 else 0) 0 3 = Some ([6, 3, 1], 3)"
    by (simp only: numeral_3_eq_3)
  moreover have "(3 :: nat) \<in> {1, 2, 3}" by simp
  ultimately show ?thesis
    using RollDice_sorted_dice [of 3 "\<lambda>k. if k = 0 then 2 else if k = 1 then 5 else 0" 0]
    by blast
qed

section \<open>Properties of the combat resolver\<close>

lemma compare_dice_eq:
  "compare_dice ad dd n =
     (of_nat (length (filter (\<lambda>k. \<not> ad ! k > dd ! k) [0 ..< n])),
      of_nat (length (filter (\<lambda>k. ad ! k > dd ! k) [0 ..< n])))"
  unfolding compare_dice_def
  by (induction n) (simp_all add: case_prod_beta)

lemma losses_sum:
  "length (filter (\<lambda>k. \<not> P k) [0 ..< n]) + length (filter P [0 ..< n]) = n"
  using sum_length_filter_compl [of "\<lambda>k. \<not> P k" "[0 ..< n]"] by simp

lemma unat_min: "unat (min (a :: uint) b) = min (unat a) (unat b)"
  by (simp add: min_def word_le_nat_alt)

lemma SingleAttack_eq:
  fixes front territory_units :: uint
  defines "na \<equiv> min (unat (front - 1)) 3"
    and "nd \<equiv> min (unat territory_units) 2"
  shows "\<exists>attack_dice defend_dice.
           RollDice g i na = Some (attack_dice, i + na) \<and> length attack_dice = na \<and>
           RollDice g (i + na) nd = Some (defend_dice, i + na + nd) \<and> length defend_dice = nd \<and>
           SingleAttack g i front territory_units =
             Some (front - of_nat (length (filter (\<lambda>k. \<not> attack_dice ! k > defend_dice ! k) [0 ..< min na nd])),
                   territory_units - of_nat (length (filter (\<lambda>k. attack_dice ! k > defend_dice ! k) [0 ..< min na nd])),
                   i + na + nd)"
proof -
  obtain ad where ad: "RollDice g i na = Some (ad, i + na)" "length ad = na"
    using RollDice_total [of g i na] by blast
  obtain dd where dd: "RollDice g (i + na) nd = Some (dd, i + na + nd)" "length dd = nd"
    using RollDice_total [of g "i + na" nd] by blast
  have na: "min (unat (front - MIN_TERRITORY_UNITS)) (unat MAX_ATTACK_DICE_COUNT) = na"
    by (simp add: na_def MIN_TERRITORY_UNITS_def MAX_ATTACK_DICE_COUNT_def)
  have nd: "min (unat territory_units) (unat MAX_DEFEND_DICE_COUNT) = nd"
    by (simp add: nd_def MAX_DEFEND_DICE_COUNT_def)
  have "SingleAttack g i front territory_units =
      Some (front - of_nat (length (filter (\<lambda>k. \<not> ad ! k > dd ! k) [0 ..< min na nd])),
            territory_units - of_nat (length (filter (\<lambda>k. ad ! k > dd ! k) [0 ..< min na nd])),
            i + na + nd)"
    unfolding SingleAttack_def Let_def unat_min na nd
    by (simp add: ad dd compare_dice_eq)
  with ad dd show ?thesis by blast
qed

lemma unat_sub_of_nat:
  "n \<le> unat (a :: uint) \<Longrightarrow> unat (a - of_nat n) = unat a - n"
proof -
  assume n: "n \<le> unat a"
  have "unat a < 2 ^ 32" using unsigned_less [of a, where 'a = nat] by simp
  with n have "n < 2 ^ 32" by linarith
  then have u: "unat (of_nat n :: uint) = n" by (simp add: unat_of_nat)
  with n have "(of_nat n :: uint) \<le> a" by (simp add: word_le_nat_alt)
  then show ?thesis using u by (simp add: unat_sub)
qed

lemma SingleAttack_round:
  fixes front territory_units :: uint
  assumes f: "2 \<le> unat front" and t: "1 \<le> unat territory_units"
  shows "\<exists>front' territory_units' i'.
           SingleAttack g i front territory_units = Some (front', territory_units', i') \<and>
           1 \<le> unat front' \<and> unat front' \<le> unat front \<and>
           unat territory_units' \<le> unat territory_units \<and>
           unat front' + unat territory_units' +
             min (min (unat front - 1) 3) (min (unat territory_units) 2) =
             unat front + unat territory_units \<and>
           (territory_units' = 0 \<longrightarrow> front' = front)"
proof -
  define na where "na = min (unat (front - 1)) 3"
  define nd where "nd = min (unat territory_units) 2"
  have f1: "unat (front - 1) = unat front - 1"
    using f unat_sub_of_nat [of 1 front] by simp
  obtain ad dd :: "uint list" where
    S: "SingleAttack g i front territory_units =
         Some (front - of_nat (length (filter (\<lambda>k. \<not> ad ! k > dd ! k) [0 ..< min na nd])),
               territory_units - of_nat (length (filter (\<lambda>k. ad ! k > dd ! k) [0 ..< min na nd])),
               i + na + nd)"
    using SingleAttack_eq [of g i front territory_units] unfolding na_def nd_def by blast
  define la where "la = length (filter (\<lambda>k. \<not> ad ! k > dd ! k) [0 ..< min na nd])"
  define ld where "ld = length (filter (\<lambda>k. ad ! k > dd ! k) [0 ..< min na nd])"
  have sum: "la + ld = min na nd" unfolding la_def ld_def by (rule losses_sum)
  have n: "min na nd = min (min (unat front - 1) 3) (min (unat territory_units) 2)"
    by (simp add: na_def nd_def f1)
  have la: "la \<le> unat front - 1" using sum n by linarith
  have ld: "ld \<le> unat territory_units" using sum n by linarith
  have uf: "unat (front - of_nat la) = unat front - la"
    using la by (intro unat_sub_of_nat) linarith
  have ut: "unat (territory_units - of_nat ld) = unat territory_units - ld"
    using ld by (intro unat_sub_of_nat)
  have z: "territory_units - of_nat ld = 0 \<longrightarrow> front - of_nat la = front"
  proof
    assume "territory_units - of_nat ld = 0"
    then have "unat (territory_units - of_nat ld) = 0" by simp
    with ut ld have "ld = unat territory_units" by linarith
    with sum n have "la = 0" by linarith
    then show "front - of_nat la = front" by simp
  qed
  have "1 \<le> unat (front - of_nat la)" using uf la f by linarith
  moreover have "unat (front - of_nat la) \<le> unat front" using uf by linarith
  moreover have "unat (territory_units - of_nat ld) \<le> unat territory_units" using ut by linarith
  moreover have "unat (front - of_nat la) + unat (territory_units - of_nat ld) +
      min (min (unat front - 1) 3) (min (unat territory_units) 2) =
      unat front + unat territory_units"
    using uf ut la ld sum n f by linarith
  ultimately show ?thesis using S z unfolding la_def ld_def by blast
qed

lemma AttackTerritory_stop:
  "\<not> (front_units > MIN_TERRITORY_UNITS \<and> territory_units > 0) \<Longrightarrow>
     AttackTerritory g i front_units territory_units = Some (front_units, territory_units, i)"
  by (subst AttackTerritory.simps) auto

lemma floor_iff:
  "(front_units > MIN_TERRITORY_UNITS \<and> territory_units > 0) \<longleftrightarrow>
     (2 \<le> unat front_units \<and> 1 \<le> unat territory_units)"
  by (auto simp: MIN_TERRITORY_UNITS_def word_less_nat_alt)

lemma AttackTerritory_total:
  "1 \<le> unat front_units \<Longrightarrow>
     \<exists>front' territory' i'.
        AttackTerritory g i front_units territory_units = Some (front', territory', i') \<and>
        1 \<le> unat front' \<and> (front' = 1 \<or> territory' = 0) \<and>
        unat front' \<le> unat front_units \<and> unat territory' \<le> unat territory_units \<and>
        (territory' = 0 \<and> 1 \<le> unat territory_units \<longrightarrow> 2 \<le> unat front')"
proof (induction "unat front_units + unat territory_units" arbitrary: front_units territory_units i
       rule: less_induct)
  case less
  show ?case
  proof (cases "front_units > MIN_TERRITORY_UNITS \<and> territory_units > 0")
    case False
    then have "AttackTerritory g i front_units territory_units =
        Some (front_units, territory_units, i)" by (rule AttackTerritory_stop)
    moreover from False less.prems have "front_units = 1 \<or> territory_units = 0"
      unfolding floor_iff by (metis One_nat_def Suc_1 le_antisym not_less_eq_eq unat_1 unat_gt_0 word_unat_eq_iff less_one linorder_not_less)
    ultimately show ?thesis using less.prems by auto
  next
    case True
    then have ft: "2 \<le> unat front_units" "1 \<le> unat territory_units"
      unfolding floor_iff by auto
    from SingleAttack_round [OF ft, of g i] obtain f1 t1 i1 where
      S: "SingleAttack g i front_units territory_units = Some (f1, t1, i1)"
      and f1: "1 \<le> unat f1"
      and le: "unat f1 \<le> unat front_units" "unat t1 \<le> unat territory_units"
      and dec: "unat f1 + unat t1 +
             min (min (unat front_units - 1) 3) (min (unat territory_units) 2) =
             unat front_units + unat territory_units"
      and z: "t1 = 0 \<longrightarrow> f1 = front_units" by blast
    have lt: "unat f1 + unat t1 < unat front_units + unat territory_units"
      using dec ft by linarith
    from less.hyps [OF lt f1, of i1] obtain f2 t2 i2 where
      A: "AttackTerritory g i1 f1 t1 = Some (f2, t2, i2)"
      and r: "1 \<le> unat f2" "f2 = 1 \<or> t2 = 0" "unat f2 \<le> unat f1" "unat t2 \<le> unat t1"
         "t2 = 0 \<and> 1 \<le> unat t1 \<longrightarrow> 2 \<le> unat f2" by blast
    have E: "AttackTerritory g i front_units territory_units = Some (f2, t2, i2)"
      using True S A by (subst AttackTerritory.simps) simp
    have "t2 = 0 \<longrightarrow> 2 \<le> unat f2"
    proof
      assume t2: "t2 = 0"
      show "2 \<le> unat f2"
      proof (cases "t1 = 0")
        case True
        with z have "f1 = front_units" by simp
        moreover from True f1 have "AttackTerritory g i1 f1 t1 = Some (f1, t1, i1)"
          by (intro AttackTerritory_stop) simp
        ultimately show ?thesis using A ft by simp
      next
        case False
        then have "1 \<le> unat t1" by (simp add: unat_gt_0 Suc_leI)
        with r(5) t2 show ?thesis by simp
      qed
    qed
    with E r le show ?thesis by (intro exI [of _ f2] exI [of _ t2] exI [of _ i2]) auto
  qed
qed

lemma RollDice_example_attack: "RollDice (\<lambda>k. if k = 0 then 2 else if k = 1 then 5 else if k = 3 then 5 else 0) 0 3 = Some ([6, 3, 1], 3)"
proof -
  have "RollDice (\<lambda>k. if k = 0 then 2 else if k = 1 then 5 else if k = 3 then 5 else 0) 0 (Suc (Suc (Suc 0))) =
      Some ([6, 3, 1], Suc (Suc (Suc 0)))"
    by (simp add: RollDice_def UniformDiceRoll_eq DICE_SIDES_def CompareDice_def)
  then show ?thesis by (simp only: numeral_3_eq_3)
qed

lemma RollDice_example_defend: "RollDice (\<lambda>k. if k = 0 then 2 else if k = 1 then 5 else if k = 3 then 5 else 0) 3 2 = Some ([6, 1], 5)"
proof -
  have "RollDice (\<lambda>k. if k = 0 then 2 else if k = 1 then 5 else if k = 3 then 5 else 0) 3 (Suc (Suc 0)) =
      Some ([6, 1], 5)"
    by (simp add: RollDice_def UniformDiceRoll_eq DICE_SIDES_def CompareDice_def)
  then show ?thesis by (simp only: numeral_2_eq_2)
qed

lemma compare_dice_example: "compare_dice [6, 3, 1] [6, 1] 2 = (1, 1)"
  by code_simp

lemma SingleAttack_example: "SingleAttack (\<lambda>k. if k = 0 then 2 else if k = 1 then 5 else if k = 3 then 5 else 0) 0 4 2 = Some (3, 1, 5)"
  by (simp add: SingleAttack_def MIN_TERRITORY_UNITS_def MAX_ATTACK_DICE_COUNT_def
        MAX_DEFEND_DICE_COUNT_def RollDice_example_attack RollDice_example_defend compare_dice_example)

text \<open>
  Claim C3. With at least 2 attacking and at least 1 defending unit, \<open>SingleAttack\<close> rolls
  \<open>min (attacker_units - 1) 3\<close> dice for the attacker and \<open>min defender_units 2\<close> for the
  defender, and compares the first \<open>min\<close> of the two counts positions of the two
  descending sequences. Each compared position costs one unit: the defender's if the
  attacker's die is strictly greater, the attacker's otherwise, so the two losses add up
  to the number of compared positions, and no subtraction wraps.
\<close>

theorem SingleAttack_losses:
  fixes attacker_units defender_units :: uint
  assumes "2 \<le> unat attacker_units" and "1 \<le> unat defender_units"
  shows "\<exists>attack_dice defend_dice i1 i2.
     RollDice g i (min (unat attacker_units - 1) 3) = Some (attack_dice, i1) \<and>
     length attack_dice = min (unat attacker_units - 1) 3 \<and>
     RollDice g i1 (min (unat defender_units) 2) = Some (defend_dice, i2) \<and>
     length defend_dice = min (unat defender_units) 2 \<and>
     (let compared = min (length attack_dice) (length defend_dice);
          defender_losses = length (filter (\<lambda>k. attack_dice ! k > defend_dice ! k) [0 ..< compared]);
          attacker_losses = length (filter (\<lambda>k. \<not> attack_dice ! k > defend_dice ! k) [0 ..< compared])
      in attacker_losses + defender_losses = compared \<and>
         SingleAttack g i attacker_units defender_units =
           Some (attacker_units - of_nat attacker_losses,
                 defender_units - of_nat defender_losses, i2) \<and>
         unat (attacker_units - of_nat attacker_losses) = unat attacker_units - attacker_losses \<and>
         unat (defender_units - of_nat defender_losses) = unat defender_units - defender_losses)"
proof -
  define na where "na = min (unat attacker_units - 1) 3"
  define nd where "nd = min (unat defender_units) 2"
  have f1: "unat (attacker_units - 1) = unat attacker_units - 1"
    using assms(1) unat_sub_of_nat [of 1 attacker_units] by simp
  obtain ad dd :: "uint list" where
    A: "RollDice g i na = Some (ad, i + na)" "length ad = na"
    and D: "RollDice g (i + na) nd = Some (dd, i + na + nd)" "length dd = nd"
    and S: "SingleAttack g i attacker_units defender_units =
         Some (attacker_units - of_nat (length (filter (\<lambda>k. \<not> ad ! k > dd ! k) [0 ..< min na nd])),
               defender_units - of_nat (length (filter (\<lambda>k. ad ! k > dd ! k) [0 ..< min na nd])),
               i + na + nd)"
    using SingleAttack_eq [of g i attacker_units defender_units]
    unfolding na_def nd_def f1 by blast
  define la where "la = length (filter (\<lambda>k. \<not> ad ! k > dd ! k) [0 ..< min na nd])"
  define ld where "ld = length (filter (\<lambda>k. ad ! k > dd ! k) [0 ..< min na nd])"
  have sum: "la + ld = min na nd" unfolding la_def ld_def by (rule losses_sum)
  have la: "la \<le> unat attacker_units" using sum na_def by linarith
  have ld: "ld \<le> unat defender_units" using sum nd_def by linarith
  have uf: "unat (attacker_units - of_nat la) = unat attacker_units - la"
    using la by (rule unat_sub_of_nat)
  have ut: "unat (defender_units - of_nat ld) = unat defender_units - ld"
    using ld by (rule unat_sub_of_nat)
  show ?thesis
    unfolding Let_def na_def [symmetric] nd_def [symmetric]
    apply (rule exI [of _ ad], rule exI [of _ dd], rule exI [of _ "i + na"],
           rule exI [of _ "i + na + nd"])
    unfolding A(2) D(2)
    by (intro conjI refl A(1) D(1) S sum [unfolded la_def ld_def]
          uf [unfolded la_def] ut [unfolded ld_def])
qed

theorem SingleAttack_losses_witness:
  "2 \<le> unat (4 :: uint) \<and> 1 \<le> unat (2 :: uint) \<and>
   SingleAttack (\<lambda>k. if k = 0 then 2 else if k = 1 then 5 else if k = 3 then 5 else 0) 0 4 2 = Some (3, 1, 5) \<and>
   (\<exists>attack_dice defend_dice i1 i2.
     RollDice (\<lambda>k. if k = 0 then 2 else if k = 1 then 5 else if k = 3 then 5 else 0) 0 (min (unat (4 :: uint) - 1) 3) = Some (attack_dice, i1) \<and>
     length attack_dice = min (unat (4 :: uint) - 1) 3 \<and>
     RollDice (\<lambda>k. if k = 0 then 2 else if k = 1 then 5 else if k = 3 then 5 else 0) i1 (min (unat (2 :: uint)) 2) = Some (defend_dice, i2) \<and>
     length defend_dice = min (unat (2 :: uint)) 2 \<and>
     (let compared = min (length attack_dice) (length defend_dice);
          defender_losses = length (filter (\<lambda>k. attack_dice ! k > defend_dice ! k) [0 ..< compared]);
          attacker_losses = length (filter (\<lambda>k. \<not> attack_dice ! k > defend_dice ! k) [0 ..< compared])
      in attacker_losses + defender_losses = compared \<and>
         SingleAttack (\<lambda>k. if k = 0 then 2 else if k = 1 then 5 else if k = 3 then 5 else 0) 0 4 2 =
           Some (4 - of_nat attacker_losses, 2 - of_nat defender_losses, i2) \<and>
         unat ((4 :: uint) - of_nat attacker_losses) = unat (4 :: uint) - attacker_losses \<and>
         unat ((2 :: uint) - of_nat defender_losses) = unat (2 :: uint) - defender_losses))"
proof -
  have h1: "2 \<le> unat (4 :: uint)" and h2: "1 \<le> unat (2 :: uint)" by simp_all
  show ?thesis
    by (intro conjI h1 h2 SingleAttack_example SingleAttack_losses [OF h1 h2])
qed

lemma at_floor_iff:
  "1 \<le> unat front_units \<Longrightarrow>
     at_floor front_units territory_units \<longleftrightarrow>
       \<not> (front_units > MIN_TERRITORY_UNITS \<and> territory_units > 0)"
proof -
  assume f: "1 \<le> unat front_units"
  have "front_units = 1 \<longleftrightarrow> unat front_units = 1" by (simp add: word_unat_eq_iff)
  moreover have "territory_units = 0 \<longleftrightarrow> unat territory_units = 0" by (simp add: unat_eq_0)
  moreover note floor_iff [of front_units territory_units]
  ultimately show ?thesis
    unfolding at_floor_def using f by (simp add: MIN_TERRITORY_UNITS_def) linarith
qed

lemma AttackTerritory_rounds:
  "1 \<le> unat front_units \<Longrightarrow>
     \<exists>rounds. rounds_trace g ((front_units, territory_units, i) # rounds) \<and>
        AttackTerritory g i front_units territory_units =
          Some (last ((front_units, territory_units, i) # rounds))"
proof (induction "unat front_units + unat territory_units" arbitrary: front_units territory_units i
       rule: less_induct)
  case less
  note fl = at_floor_iff [OF less.prems, of territory_units]
  show ?case
  proof (cases "at_floor front_units territory_units")
    case True
    then have "AttackTerritory g i front_units territory_units =
        Some (front_units, territory_units, i)"
      unfolding fl by (rule AttackTerritory_stop)
    with True show ?thesis by (intro exI [of _ "[]"]) simp
  next
    case False
    then have c: "front_units > MIN_TERRITORY_UNITS \<and> territory_units > 0"
      unfolding fl by simp
    then have ft: "2 \<le> unat front_units" "1 \<le> unat territory_units"
      unfolding floor_iff by auto
    from SingleAttack_round [OF ft, of g i] obtain f1 t1 i1 where
      S: "SingleAttack g i front_units territory_units = Some (f1, t1, i1)"
      and f1: "1 \<le> unat f1"
      and dec: "unat f1 + unat t1 +
             min (min (unat front_units - 1) 3) (min (unat territory_units) 2) =
             unat front_units + unat territory_units" by blast
    have lt: "unat f1 + unat t1 < unat front_units + unat territory_units"
      using dec ft by linarith
    from less.hyps [OF lt f1, of i1] obtain rounds where
      R: "rounds_trace g ((f1, t1, i1) # rounds)"
      and A: "AttackTerritory g i1 f1 t1 = Some (last ((f1, t1, i1) # rounds))" by blast
    have E: "AttackTerritory g i front_units territory_units =
        Some (last ((f1, t1, i1) # rounds))"
      using c S A by (subst AttackTerritory.simps) simp
    show ?thesis
      using False S R E by (intro exI [of _ "(f1, t1, i1) # rounds"]) simp
  qed
qed

lemma SingleAttack_ties_example: "SingleAttack (\<lambda>k. 0) 0 2 2 = Some (1, 2, 3)"
proof -
  have a: "RollDice (\<lambda>k. 0) 0 (Suc 0) = Some ([1], Suc 0)"
    by (simp add: RollDice_def UniformDiceRoll_eq DICE_SIDES_def)
  have d: "RollDice (\<lambda>k. 0) (Suc 0) (Suc (Suc 0)) = Some ([1, 1], 3)"
    by (simp add: RollDice_def UniformDiceRoll_eq DICE_SIDES_def CompareDice_def)
  have c: "compare_dice [1] [1, 1] (Suc 0) = (1, 0)" by code_simp
  have u: "unat (min (2 - 1 :: uint) 3) = Suc 0" "unat (min (2 :: uint) 2) = Suc (Suc 0)"
    "unat (min (min (2 - 1 :: uint) 3) (min 2 2)) = Suc 0" by simp_all
  show ?thesis
    unfolding SingleAttack_def Let_def MIN_TERRITORY_UNITS_def MAX_ATTACK_DICE_COUNT_def
      MAX_DEFEND_DICE_COUNT_def u
    by (simp add: a d c)
qed

lemma AttackTerritory_example: "AttackTerritory (\<lambda>k. 0) 0 2 2 = Some (1, 2, 3)"
proof -
  have "AttackTerritory (\<lambda>k. 0) 0 2 2 = AttackTerritory (\<lambda>k. 0) 3 1 2"
    by (subst AttackTerritory.simps)
       (simp add: SingleAttack_ties_example MIN_TERRITORY_UNITS_def)
  also have "\<dots> = Some (1, 2, 3)"
    by (rule AttackTerritory_stop) (simp add: MIN_TERRITORY_UNITS_def)
  finally show ?thesis .
qed

lemma rounds_trace_example: "rounds_trace (\<lambda>k. 0) [(2, 2, 0), (1, 2, 3)]"
  by (simp add: SingleAttack_ties_example at_floor_def MIN_TERRITORY_UNITS_def)

text \<open>
  Claim C4. From at least one front unit, \<open>AttackTerritory\<close> returns, with the front at 1
  or the territory at 0. Called with either side at its floor already, it returns its
  arguments and draws no random value. In general the states after its rounds make a
  trace: each round is played from a state with no side at its floor, the first state
  with a side at its floor ends the trace, and that state, with its position in the random
  stream, is what \<open>AttackTerritory\<close> returns: no round is played after it.
\<close>

theorem AttackTerritory_terminates:
  "1 \<le> unat front_units \<Longrightarrow>
     \<exists>remaining_front remaining_territory i' rounds.
        AttackTerritory g i front_units (units territory) =
          Some (remaining_front, remaining_territory, i') \<and>
        (remaining_front = 1 \<or> remaining_territory = 0) \<and>
        (front_units = 1 \<or> units territory = 0 \<longrightarrow>
           remaining_front = front_units \<and> remaining_territory = units territory \<and> i' = i) \<and>
        rounds_trace g ((front_units, units territory, i) # rounds) \<and>
        last ((front_units, units territory, i) # rounds) =
          (remaining_front, remaining_territory, i')"
proof -
  assume f: "1 \<le> unat front_units"
  from AttackTerritory_total [OF f, of g i "units territory"] obtain rf rt i' where
    A: "AttackTerritory g i front_units (units territory) = Some (rf, rt, i')"
    and r: "rf = 1 \<or> rt = 0" by blast
  from AttackTerritory_rounds [OF f, of g "units territory" i] obtain rounds where
    T: "rounds_trace g ((front_units, units territory, i) # rounds)"
    and L: "AttackTerritory g i front_units (units territory) =
          Some (last ((front_units, units territory, i) # rounds))" by blast
  have l: "last ((front_units, units territory, i) # rounds) = (rf, rt, i')"
    using A L by simp
  have s: "front_units = 1 \<or> units territory = 0 \<longrightarrow>
      rf = front_units \<and> rt = units territory \<and> i' = i"
  proof
    assume "front_units = 1 \<or> units territory = 0"
    then have "AttackTerritory g i front_units (units territory) =
        Some (front_units, units territory, i)"
      by (auto intro!: AttackTerritory_stop simp: MIN_TERRITORY_UNITS_def)
    with A show "rf = front_units \<and> rt = units territory \<and> i' = i" by simp
  qed
  show ?thesis
    by (intro exI [of _ rf] exI [of _ rt] exI [of _ i'] exI [of _ rounds] conjI A r s T l)
qed

theorem AttackTerritory_terminates_witness:
  "1 \<le> unat (2 :: uint) \<and>
   AttackTerritory (\<lambda>k. 0) 0 2 (units \<lparr>units = 2\<rparr>) = Some (1, 2, 3) \<and>
   rounds_trace (\<lambda>k. 0) [(2, 2, 0), (1, 2, 3)] \<and>
   (\<exists>remaining_front remaining_territory i' rounds.
      AttackTerritory (\<lambda>k. 0) 0 2 (units \<lparr>units = 2\<rparr>) =
          Some (remaining_front, remaining_territory, i') \<and>
      (remaining_front = 1 \<or> remaining_territory = 0) \<and>
      rounds_trace (\<lambda>k. 0) ((2, units \<lparr>units = 2\<rparr>, 0) # rounds) \<and>
      last ((2, units \<lparr>units = 2\<rparr>, 0) # rounds) = (remaining_front, remaining_territory, i'))"
proof -
  have h: "1 \<le> unat (2 :: uint)" by simp
  have e: "AttackTerritory (\<lambda>k. 0) 0 2 (units \<lparr>units = 2\<rparr>) = Some (1, 2, 3)"
    using AttackTerritory_example by simp
  have "\<exists>remaining_front remaining_territory i' rounds.
      AttackTerritory (\<lambda>k. 0) 0 2 (units \<lparr>units = 2\<rparr>) =
          Some (remaining_front, remaining_territory, i') \<and>
      (remaining_front = 1 \<or> remaining_territory = 0) \<and>
      rounds_trace (\<lambda>k. 0) ((2, units \<lparr>units = 2\<rparr>, 0) # rounds) \<and>
      last ((2, units \<lparr>units = 2\<rparr>, 0) # rounds) = (remaining_front, remaining_territory, i')"
    using AttackTerritory_terminates [OF h, of "\<lambda>k. 0" 0 "\<lparr>units = 2\<rparr>"]
    by (elim exE conjE) (intro exI conjI, assumption+)
  with h e rounds_trace_example show ?thesis by (intro conjI)
qed

text \<open>
  Claim C8. The vector of one territory with 0 defenders, attacked from 5 front units with
  bonus 0, is won for every random stream: one territory conquered, no enemy unit left,
  4 front units left, and the position in the random stream is unchanged (no die rolled).
\<close>

theorem SimAttack_trivial_vector:
  "SimAttack g i \<lparr>def_string = s, units_on_front = 5, territory_vector = [\<lparr>units = 0\<rparr>]\<rparr> 0 =
     Some (\<lparr>conquered_territory_count = 1, result_units_on_front = 4,
            enemy_units_on_front = 0\<rparr>, i)"
  by (simp add: SimAttack_def AttackTerritory_stop MIN_TERRITORY_UNITS_def)

text \<open>
  Claim C10 says that the front carried into a territory is never below 1, so that the
  garrison subtraction never wraps. The code at the vector \<open>1:0,0\<close> with bonus 0: the
  first territory falls without a round, the front carried into the second is 0, the
  second falls too and \<open>0 - 1\<close> wraps: a win with 4294967295 front units is reported.
\<close>

theorem SimAttack_garrison_wraps:
  "SimAttack g i \<lparr>def_string = s, units_on_front = 1,
       territory_vector = [\<lparr>units = 0\<rparr>, \<lparr>units = 0\<rparr>]\<rparr> 0 =
     Some (\<lparr>conquered_territory_count = 2, result_units_on_front = 4294967295,
            enemy_units_on_front = 0\<rparr>, i)"
  by (simp add: SimAttack_def AttackTerritory_stop MIN_TERRITORY_UNITS_def)

section \<open>Properties of the vector traversal and of the predictor\<close>

lemma AttackTerritory_returns:
  "\<exists>front' territory' i'.
      AttackTerritory g i front_units territory_units = Some (front', territory', i')"
proof (cases "1 \<le> unat front_units")
  case True
  from AttackTerritory_total [OF True, of g i territory_units] show ?thesis by blast
next
  case False
  then have "\<not> (front_units > MIN_TERRITORY_UNITS \<and> territory_units > 0)"
    unfolding floor_iff by simp
  then show ?thesis using AttackTerritory_stop by blast
qed

lemma SimAttack_loop_returns:
  "\<exists>c front' r i'.
      SimAttack_loop g i front r0 cursor ts = Some (c, front', r, i') \<and>
      cursor \<le> c \<and> c \<le> cursor + length ts \<and>
      (r = 0 \<longrightarrow> c = cursor + length ts) \<and>
      (r \<noteq> 0 \<longrightarrow> (ts = [] \<and> r = r0) \<or>
         (c < cursor + length ts \<and>
          (\<exists>i0 f0. AttackTerritory g i0 f0 (units (ts ! (c - cursor))) = Some (front', r, i'))))"
proof (induction ts arbitrary: i front r0 cursor)
  case Nil
  then show ?case by simp
next
  case (Cons t ts)
  obtain f1 r1 i1 where A: "AttackTerritory g i front (units t) = Some (f1, r1, i1)"
    using AttackTerritory_returns by blast
  show ?case
  proof (cases "r1 = 0")
    case True
    from Cons.IH [of i1 "f1 - MIN_TERRITORY_UNITS" r1 "Suc cursor"] obtain c f2 r i2 where
      L: "SimAttack_loop g i1 (f1 - MIN_TERRITORY_UNITS) r1 (Suc cursor) ts = Some (c, f2, r, i2)"
      and b: "Suc cursor \<le> c" "c \<le> Suc cursor + length ts"
      and z: "r = 0 \<longrightarrow> c = Suc cursor + length ts"
      and nz: "r \<noteq> 0 \<longrightarrow> (ts = [] \<and> r = r1) \<or>
         (c < Suc cursor + length ts \<and>
          (\<exists>i0 f0. AttackTerritory g i0 f0 (units (ts ! (c - Suc cursor))) = Some (f2, r, i2)))"
      by blast
    have E: "SimAttack_loop g i front r0 cursor (t # ts) = Some (c, f2, r, i2)"
      using A True L by simp
    have idx: "(t # ts) ! (c - cursor) = ts ! (c - Suc cursor)"
      using b(1) by (simp add: Suc_diff_le flip: Suc_diff_Suc) 
    have "r \<noteq> 0 \<longrightarrow> (c < cursor + length (t # ts) \<and>
          (\<exists>i0 f0. AttackTerritory g i0 f0 (units ((t # ts) ! (c - cursor))) = Some (f2, r, i2)))"
      using nz True unfolding idx by auto
    with E b z show ?thesis by auto
  next
    case False
    then have E: "SimAttack_loop g i front r0 cursor (t # ts) = Some (cursor, f1, r1, i1)"
      using A by simp
    show ?thesis unfolding E using False A by auto
  qed
qed

lemma fold_add_sum_list:
  "fold (\<lambda>x (r :: uint). r + f x) xs e = e + sum_list (map f xs)"
  by (induction xs arbitrary: e) (simp_all add: add.assoc)

lemma map_nth_upt_drop: "map ((!) xs) [a ..< length xs] = drop a xs"
  by (metis drop_map map_nth drop_upt add_0)

lemma SimAttack_returns:
  "\<exists>result i' c.
      SimAttack g i vector bonus_units = Some (result, i') \<and>
      c \<le> territory_count vector \<and> conquered_territory_count result = of_nat c \<and>
      (territory_vector vector \<noteq> [] \<longrightarrow>
         (enemy_units_on_front result = 0 \<longrightarrow> c = territory_count vector) \<and>
         (enemy_units_on_front result \<noteq> 0 \<longrightarrow> c < territory_count vector \<and>
            (\<exists>i0 f0. AttackTerritory g i0 f0 (units (territory_vector vector ! c)) =
               Some (result_units_on_front result, enemy_units_on_front result, i'))))"
proof -
  from SimAttack_loop_returns
    [of g i "units_on_front vector + bonus_units" undefined 0 "territory_vector vector"]
  obtain c f r i' where
    H: "SimAttack_loop g i (units_on_front vector + bonus_units) undefined 0
          (territory_vector vector) = Some (c, f, r, i') \<and>
      0 \<le> c \<and> c \<le> 0 + length (territory_vector vector) \<and>
      (r = 0 \<longrightarrow> c = 0 + length (territory_vector vector)) \<and>
      (r \<noteq> 0 \<longrightarrow> (territory_vector vector = [] \<and> r = undefined) \<or>
         (c < 0 + length (territory_vector vector) \<and>
          (\<exists>i0 f0. AttackTerritory g i0 f0 (units (territory_vector vector ! (c - 0))) =
             Some (f, r, i'))))"
    by blast
  have L: "SimAttack_loop g i (units_on_front vector + bonus_units) undefined 0
          (territory_vector vector) = Some (c, f, r, i')"
    using H by blast
  have b: "c \<le> length (territory_vector vector)" using H by simp
  have z: "r = 0 \<longrightarrow> c = length (territory_vector vector)" using H by simp
  have nz: "r \<noteq> 0 \<longrightarrow> (territory_vector vector = [] \<and> r = undefined) \<or>
         (c < length (territory_vector vector) \<and>
          (\<exists>i0 f0. AttackTerritory g i0 f0 (units (territory_vector vector ! c)) = Some (f, r, i')))"
    using H by simp
  have "SimAttack g i vector bonus_units =
      Some (\<lparr>conquered_territory_count = of_nat c, result_units_on_front = f,
             enemy_units_on_front = r\<rparr>, i')"
    using L by (simp add: SimAttack_def)
  then show ?thesis using b z nz
    by (intro exI [of _ "\<lparr>conquered_territory_count = of_nat c, result_units_on_front = f,
             enemy_units_on_front = r\<rparr>"] exI [of _ i'] exI [of _ c])
       (auto simp: territory_count_def)
qed

lemma enemy_units_remaining_eq:
  assumes "c < territory_count vector" "territory_count vector \<le> MAX_TERRITORY_VECTOR_SIZE"
    "conquered_territory_count result = of_nat c"
  shows "enemy_units_remaining vector result =
     enemy_units_on_front result + sum_list (map units (drop (Suc c) (territory_vector vector)))"
proof -
  have c: "c < 128" using assms(1,2) by (simp add: MAX_TERRITORY_VECTOR_SIZE_def)
  then have "unat (of_nat c + 1 :: uint) = Suc c"
    by (simp add: unat_word_ariths unat_of_nat)
  then have "enemy_units_remaining vector result =
      fold (\<lambda>index remaining. remaining + units (territory_vector vector ! index))
        [Suc c ..< length (territory_vector vector)] (enemy_units_on_front result)"
    by (simp add: enemy_units_remaining_def assms(3) territory_count_def)
  also have "\<dots> = enemy_units_on_front result +
      sum_list (map (\<lambda>index. units (territory_vector vector ! index))
        [Suc c ..< length (territory_vector vector)])"
    by (rule fold_add_sum_list)
  also have "map (\<lambda>index. units (territory_vector vector ! index))
        [Suc c ..< length (territory_vector vector)] =
      map units (map ((!) (territory_vector vector)) [Suc c ..< length (territory_vector vector)])"
    by simp
  also have "\<dots> = map units (drop (Suc c) (territory_vector vector))"
    by (simp only: map_nth_upt_drop)
  finally show ?thesis .
qed

lemma unat_sum_list:
  "sum_list (map unat ws) < 4294967296 \<Longrightarrow> unat (sum_list ws :: uint) = sum_list (map unat ws)"
proof (induction ws)
  case Nil
  then show ?case by simp
next
  case (Cons w ws)
  then have "unat (sum_list ws) = sum_list (map unat ws)" by simp
  with Cons.prems show ?case by (simp add: unat_word_ariths)
qed

text \<open>
  Claim C5. In a run classified as a loss, the count of conquered territories is the index
  \<open>k\<close> of the territory that stopped the assault, and the enemy units of the result are
  what \<open>AttackTerritory\<close> left on that territory. The run adds to the enemy-units counter
  those units plus the original units of every territory after index \<open>k\<close> (in
  \<open>unsigned int\<close> arithmetic, which is the sum of the numbers as long as that stays below
  \<open>2 ^ 32\<close>), and to the remaining-territories counter the territory count minus \<open>k\<close>,
  which counts the territory where the assault failed.
\<close>

theorem loss_run_accounting:
  assumes "1 \<le> territory_count vector"
    and "territory_count vector \<le> MAX_TERRITORY_VECTOR_SIZE"
    and "SimAttack g i vector bonus_units = Some (result, i')"
    and "enemy_units_on_front result \<noteq> 0"
  shows "\<exists>k c'.
     k = unat (conquered_territory_count result) \<and> k < territory_count vector \<and>
     (\<exists>i0 f0. AttackTerritory g i0 f0 (units (territory_vector vector ! k)) =
        Some (result_units_on_front result, enemy_units_on_front result, i')) \<and>
     PredictAttack_run g i vector bonus_units c = Some (c', i') \<and>
     c_loss_count c' = c_loss_count c + 1 \<and>
     c_win_count c' = c_win_count c \<and>
     c_total_units_on_front c' = c_total_units_on_front c \<and>
     c_total_enemy_units_remaining c' = c_total_enemy_units_remaining c +
       (enemy_units_on_front result +
        sum_list (map units (drop (Suc k) (territory_vector vector)))) \<and>
     (unat (enemy_units_on_front result) +
        sum_list (map (unat \<circ> units) (drop (Suc k) (territory_vector vector))) < 2 ^ 32 \<longrightarrow>
      unat (enemy_units_remaining vector result) =
        unat (enemy_units_on_front result) +
        sum_list (map (unat \<circ> units) (drop (Suc k) (territory_vector vector)))) \<and>
     c_total_territories_remaining c' = c_total_territories_remaining c +
       of_nat (territory_count vector - k) \<and>
     1 \<le> territory_count vector - k"
proof -
  have ne: "territory_vector vector \<noteq> []" using assms(1) by (auto simp: territory_count_def)
  from SimAttack_returns [of g i vector bonus_units] assms(3,4) ne obtain k where
    k: "k < territory_count vector" "conquered_territory_count result = of_nat k"
    and A: "\<exists>i0 f0. AttackTerritory g i0 f0 (units (territory_vector vector ! k)) =
               Some (result_units_on_front result, enemy_units_on_front result, i')"
    by auto
  have k128: "k < 128" using k(1) assms(2) by (simp add: MAX_TERRITORY_VECTOR_SIZE_def)
  then have uk: "unat (conquered_territory_count result) = k"
    by (simp add: k(2) unat_of_nat)
  have e: "enemy_units_remaining vector result =
     enemy_units_on_front result + sum_list (map units (drop (Suc k) (territory_vector vector)))"
    by (rule enemy_units_remaining_eq [OF k(1) assms(2) k(2)])
  have t: "(of_nat (territory_count vector) - conquered_territory_count result :: uint) =
      of_nat (territory_count vector - k)"
    using k(1) by (simp add: k(2))
  have n: "unat (enemy_units_on_front result) +
        sum_list (map (unat \<circ> units) (drop (Suc k) (territory_vector vector))) < 2 ^ 32 \<longrightarrow>
      unat (enemy_units_remaining vector result) =
        unat (enemy_units_on_front result) +
        sum_list (map (unat \<circ> units) (drop (Suc k) (territory_vector vector)))"
  proof
    assume lt: "unat (enemy_units_on_front result) +
        sum_list (map (unat \<circ> units) (drop (Suc k) (territory_vector vector))) < 2 ^ 32"
    then have "sum_list (map unat (map units (drop (Suc k) (territory_vector vector)))) < 4294967296"
      by simp
    then have "unat (sum_list (map units (drop (Suc k) (territory_vector vector)))) =
        sum_list (map unat (map units (drop (Suc k) (territory_vector vector))))"
      by (rule unat_sum_list)
    with lt show "unat (enemy_units_remaining vector result) =
        unat (enemy_units_on_front result) +
        sum_list (map (unat \<circ> units) (drop (Suc k) (territory_vector vector)))"
      unfolding e by (simp add: unat_word_ariths)
  qed
  have R: "PredictAttack_run g i vector bonus_units c =
      Some (c\<lparr>c_loss_count := c_loss_count c + 1,
               c_total_enemy_units_remaining :=
                 c_total_enemy_units_remaining c + enemy_units_remaining vector result,
               c_total_territories_remaining :=
                 c_total_territories_remaining c +
                   (of_nat (territory_count vector) - conquered_territory_count result)\<rparr>, i')"
    using assms(3,4) by (simp add: PredictAttack_run_def)
  show ?thesis
    apply (rule exI [of _ k], rule exI)
    apply (intro conjI)
             apply (rule uk [symmetric])
            apply (rule k(1))
           apply (rule A)
          apply (rule R)
    using e t n k(1) by simp_all
qed

theorem loss_run_accounting_witness:
  "1 \<le> territory_count \<lparr>def_string = ''1:3,2'', units_on_front = 1,
          territory_vector = [\<lparr>units = 3\<rparr>, \<lparr>units = 2\<rparr>]\<rparr> \<and>
   territory_count \<lparr>def_string = ''1:3,2'', units_on_front = 1,
          territory_vector = [\<lparr>units = 3\<rparr>, \<lparr>units = 2\<rparr>]\<rparr> \<le> MAX_TERRITORY_VECTOR_SIZE \<and>
   SimAttack (\<lambda>k. 0) 0 \<lparr>def_string = ''1:3,2'', units_on_front = 1,
          territory_vector = [\<lparr>units = 3\<rparr>, \<lparr>units = 2\<rparr>]\<rparr> 0 =
     Some (\<lparr>conquered_territory_count = 0, result_units_on_front = 1,
            enemy_units_on_front = 3\<rparr>, 0) \<and>
   enemy_units_on_front \<lparr>conquered_territory_count = 0, result_units_on_front = 1,
            enemy_units_on_front = 3\<rparr> \<noteq> 0 \<and>
   (\<exists>c'. PredictAttack_run (\<lambda>k. 0) 0 \<lparr>def_string = ''1:3,2'', units_on_front = 1,
          territory_vector = [\<lparr>units = 3\<rparr>, \<lparr>units = 2\<rparr>]\<rparr> 0
          \<lparr>c_win_count = 0, c_total_units_on_front = 0, c_loss_count = 0,
           c_total_enemy_units_remaining = 0, c_total_territories_remaining = 0\<rparr> = Some (c', 0) \<and>
      c_loss_count c' = 1 \<and> c_total_enemy_units_remaining c' = 5 \<and>
      c_total_territories_remaining c' = 2)"
proof -
  define v where "v = \<lparr>def_string = ''1:3,2'', units_on_front = 1,
          territory_vector = [\<lparr>units = 3\<rparr>, \<lparr>units = 2\<rparr>]\<rparr>"
  define r where "r = \<lparr>conquered_territory_count = 0, result_units_on_front = 1,
            enemy_units_on_front = 3\<rparr>"
  have h1: "1 \<le> territory_count v" by (simp add: v_def territory_count_def)
  have h2: "territory_count v \<le> MAX_TERRITORY_VECTOR_SIZE"
    by (simp add: v_def territory_count_def MAX_TERRITORY_VECTOR_SIZE_def)
  have h3: "SimAttack (\<lambda>k. 0) 0 v 0 = Some (r, 0)"
    by (simp add: v_def r_def SimAttack_def AttackTerritory_stop MIN_TERRITORY_UNITS_def)
  have h4: "enemy_units_on_front r \<noteq> 0" by (simp add: r_def)
  from loss_run_accounting [OF h1 h2 h3 h4,
      of "\<lparr>c_win_count = 0, c_total_units_on_front = 0, c_loss_count = 0,
           c_total_enemy_units_remaining = 0, c_total_territories_remaining = 0\<rparr>"]
  have "\<exists>c'. PredictAttack_run (\<lambda>k. 0) 0 v 0
          \<lparr>c_win_count = 0, c_total_units_on_front = 0, c_loss_count = 0,
           c_total_enemy_units_remaining = 0, c_total_territories_remaining = 0\<rparr> = Some (c', 0) \<and>
      c_loss_count c' = 1 \<and> c_total_enemy_units_remaining c' = 5 \<and>
      c_total_territories_remaining c' = 2"
    by (auto simp: v_def r_def territory_count_def)
  with h1 h2 h3 h4 show ?thesis unfolding v_def r_def by blast
qed

lemma unat_Suc_word: "unat (w :: uint) < 4294967295 \<Longrightarrow> unat (w + 1) = Suc (unat w)"
  by (simp add: unat_word_ariths)

lemma PredictAttack_run_inv:
  assumes "counters_inv c m" and "Suc m < 4294967296"
  shows "\<exists>c' i'. PredictAttack_run g i vector bonus_units c = Some (c', i') \<and>
           counters_inv c' (Suc m)"
proof -
  obtain result i' where S: "SimAttack g i vector bonus_units = Some (result, i')"
    using SimAttack_returns by blast
  have w: "unat (c_win_count c) < 4294967295" and l: "unat (c_loss_count c) < 4294967295"
    using assms by (auto simp: counters_inv_def)
  show ?thesis
  proof (cases "enemy_units_on_front result = 0")
    case True
    then have R: "PredictAttack_run g i vector bonus_units c =
        Some (c\<lparr>c_win_count := c_win_count c + 1,
                 c_total_units_on_front :=
                   c_total_units_on_front c + result_units_on_front result\<rparr>, i')"
      using S by (simp add: PredictAttack_run_def)
    have n0: "c_win_count c + 1 \<noteq> 0"
      using unat_Suc_word [OF w] by (metis Zero_not_Suc unat_0)
    show ?thesis unfolding R using assms(1) n0 unat_Suc_word [OF w]
      by (simp add: counters_inv_def)
  next
    case False
    then have R: "PredictAttack_run g i vector bonus_units c =
        Some (c\<lparr>c_loss_count := c_loss_count c + 1,
                 c_total_enemy_units_remaining :=
                   c_total_enemy_units_remaining c + enemy_units_remaining vector result,
                 c_total_territories_remaining :=
                   c_total_territories_remaining c +
                     (of_nat (territory_count vector) - conquered_territory_count result)\<rparr>, i')"
      using S by (simp add: PredictAttack_run_def)
    have n0: "c_loss_count c + 1 \<noteq> 0"
      using unat_Suc_word [OF l] by (metis Zero_not_Suc unat_0)
    show ?thesis unfolding R using assms(1) n0 unat_Suc_word [OF l]
      by (simp add: counters_inv_def)
  qed
qed

lemma PredictAttack_loop_inv:
  "counters_inv c m \<Longrightarrow> m + n < 4294967296 \<Longrightarrow>
     \<exists>c' i'. PredictAttack_loop g i vector bonus_units n c = Some (c', i') \<and>
        counters_inv c' (m + n)"
proof (induction n arbitrary: i c m)
  case 0
  then show ?case by simp
next
  case (Suc n)
  from Suc.prems have "Suc m < 4294967296" by simp
  from PredictAttack_run_inv [OF Suc.prems(1) this, of g i vector bonus_units]
  obtain c1 i1 where R: "PredictAttack_run g i vector bonus_units c = Some (c1, i1)"
    and I: "counters_inv c1 (Suc m)" by blast
  from Suc.prems have "Suc m + n < 4294967296" by simp
  from Suc.IH [OF I this, of i1] R show ?case by simp
qed

lemma binary32_not_NaN: "binary32 x \<noteq> NaN"
  by (simp add: binary32_def Let_def)

lemma float_ratio_NaN: "float_ratio a b = NaN \<longleftrightarrow> a = 0 \<and> b = 0"
  by (simp add: float_ratio_def binary32_not_NaN)

lemma float_ratio_zero: "float_ratio 0 0 = NaN"
  by (simp add: float_ratio_def)

lemma PredictAttack_returns:
  "\<exists>p i'. PredictAttack g i vector bonus_units sim_iterations = Some (p, i') \<and>
      unat (win_count p) + unat (loss_count p) = unat sim_iterations \<and>
      win_count p + loss_count p = sim_iterations \<and>
      win_likelihood p = float_ratio (win_count p) (win_count p + loss_count p) \<and>
      (win_likelihood p = NaN \<longleftrightarrow> sim_iterations = 0) \<and>
      (estimated_remaining_units_if_win p = NaN \<longleftrightarrow> win_count p = 0) \<and>
      (estimated_remaining_enemies_if_loss p = NaN \<longleftrightarrow> loss_count p = 0) \<and>
      (estimated_remaining_territories_if_loss p = NaN \<longleftrightarrow> loss_count p = 0) \<and>
      (sim_iterations = 0 \<longrightarrow>
         win_likelihood p = NaN \<and> estimated_remaining_units_if_win p = NaN \<and>
         estimated_remaining_enemies_if_loss p = NaN \<and>
         estimated_remaining_territories_if_loss p = NaN) \<and>
      (win_count p = 0 \<longrightarrow> estimated_remaining_units_if_win p \<noteq> Finite 0) \<and>
      (loss_count p = 0 \<longrightarrow>
         estimated_remaining_enemies_if_loss p \<noteq> Finite 0 \<and>
         estimated_remaining_territories_if_loss p \<noteq> Finite 0)"
proof -
  define c0 where "c0 = \<lparr>c_win_count = 0, c_total_units_on_front = 0, c_loss_count = 0,
              c_total_enemy_units_remaining = 0, c_total_territories_remaining = 0\<rparr>"
  have I0: "counters_inv c0 0" by (simp add: counters_inv_def c0_def)
  have "unat sim_iterations < 2 ^ 32" using unsigned_less [of sim_iterations, where 'a = nat] by simp
  then have "0 + unat sim_iterations < 4294967296" by simp
  from PredictAttack_loop_inv [OF I0 this, of g i vector bonus_units]
  obtain c i' where L: "PredictAttack_loop g i vector bonus_units (unat sim_iterations) c0 = Some (c, i')"
    and I: "counters_inv c (unat sim_iterations)" by auto
  have sum: "unat (c_win_count c) + unat (c_loss_count c) = unat sim_iterations"
    and w0: "c_win_count c = 0 \<longrightarrow> c_total_units_on_front c = 0"
    and l0: "c_loss_count c = 0 \<longrightarrow>
        c_total_enemy_units_remaining c = 0 \<and> c_total_territories_remaining c = 0"
    using I by (simp_all add: counters_inv_def)
  have "unat (c_win_count c) + unat (c_loss_count c) < 2 ^ 32"
    using sum unsigned_less [of sim_iterations, where 'a = nat] by simp
  then have "unat (c_win_count c + c_loss_count c) = unat sim_iterations"
    using sum by (simp add: unat_word_ariths)
  then have wsum: "c_win_count c + c_loss_count c = sim_iterations"
    by (simp add: word_unat_eq_iff)
  have z: "sim_iterations = 0 \<longleftrightarrow> c_win_count c = 0 \<and> c_loss_count c = 0"
  proof -
    have "sim_iterations = 0 \<longleftrightarrow> unat sim_iterations = 0" by (simp add: unat_eq_0)
    also have "\<dots> \<longleftrightarrow> unat (c_win_count c) = 0 \<and> unat (c_loss_count c) = 0"
      using sum by auto
    finally show ?thesis by (simp add: unat_eq_0)
  qed
  have P: "PredictAttack g i vector bonus_units sim_iterations =
      Some (\<lparr>win_likelihood = float_ratio (c_win_count c) (c_win_count c + c_loss_count c),
             estimated_remaining_units_if_win =
               float_ratio (c_total_units_on_front c) (c_win_count c),
             estimated_remaining_enemies_if_loss =
               float_ratio (c_total_enemy_units_remaining c) (c_loss_count c),
             estimated_remaining_territories_if_loss =
               float_ratio (c_total_territories_remaining c) (c_loss_count c),
             win_count = c_win_count c,
             loss_count = c_loss_count c\<rparr>, i')"
    using L by (simp add: PredictAttack_def c0_def)
  show ?thesis
    unfolding P
    apply (rule exI, rule exI, rule conjI, rule refl)
    using sum wsum w0 l0 z by (auto simp: float_ratio_NaN float_ratio_zero)
qed

text \<open>
  Claim C6. \<open>PredictAttack\<close> returns a prediction whose win and loss counts add up to the
  iteration count, and whose win likelihood is the quotient of the win count by that
  total. The mean conditioned on a win is NaN exactly when the win count is 0, the two
  means conditioned on a loss are NaN exactly when the loss count is 0, and with 0
  iterations all four quotients are NaN; no such case is an error or the value zero.
\<close>

theorem PredictAttack_counts:
  "\<exists>p i'. PredictAttack g i vector bonus_units sim_iterations = Some (p, i') \<and>
      unat (win_count p) + unat (loss_count p) = unat sim_iterations \<and>
      win_count p + loss_count p = sim_iterations \<and>
      win_likelihood p = float_ratio (win_count p) (win_count p + loss_count p) \<and>
      (win_likelihood p = NaN \<longleftrightarrow> sim_iterations = 0) \<and>
      (estimated_remaining_units_if_win p = NaN \<longleftrightarrow> win_count p = 0) \<and>
      (estimated_remaining_enemies_if_loss p = NaN \<longleftrightarrow> loss_count p = 0) \<and>
      (estimated_remaining_territories_if_loss p = NaN \<longleftrightarrow> loss_count p = 0) \<and>
      (sim_iterations = 0 \<longrightarrow>
         win_likelihood p = NaN \<and> estimated_remaining_units_if_win p = NaN \<and>
         estimated_remaining_enemies_if_loss p = NaN \<and>
         estimated_remaining_territories_if_loss p = NaN) \<and>
      (win_count p = 0 \<longrightarrow> estimated_remaining_units_if_win p \<noteq> Finite 0) \<and>
      (loss_count p = 0 \<longrightarrow>
         estimated_remaining_enemies_if_loss p \<noteq> Finite 0 \<and>
         estimated_remaining_territories_if_loss p \<noteq> Finite 0)"
  by (rule PredictAttack_returns)

lemma float_ratio_examples:
  "float_ratio 2 2 = Finite 1" "float_ratio 8 2 = Finite 4" "float_ratio 0 0 = NaN"
  by code_simp+

lemma PredictAttack_example:
  "PredictAttack (\<lambda>k. 0) 0 \<lparr>def_string = ''5:0'', units_on_front = 5,
       territory_vector = [\<lparr>units = 0\<rparr>]\<rparr> 0 2 =
     Some (\<lparr>win_likelihood = Finite 1, estimated_remaining_units_if_win = Finite 4,
            estimated_remaining_enemies_if_loss = NaN,
            estimated_remaining_territories_if_loss = NaN,
            win_count = 2, loss_count = 0\<rparr>, 0)"
proof -
  have u: "unat (2 :: uint) = Suc (Suc 0)" by simp
  show ?thesis
    unfolding PredictAttack_def u
    by (simp add: PredictAttack_run_def SimAttack_def AttackTerritory_stop
        MIN_TERRITORY_UNITS_def float_ratio_examples)
qed

theorem PredictAttack_counts_witness:
  "(\<exists>p i'. PredictAttack (\<lambda>k. 0) 0 \<lparr>def_string = ''2:1'', units_on_front = 2,
       territory_vector = [\<lparr>units = 1\<rparr>]\<rparr> 0 0 = Some (p, i') \<and>
      win_count p = 0 \<and> loss_count p = 0 \<and> win_likelihood p = NaN \<and>
      estimated_remaining_units_if_win p = NaN \<and>
      estimated_remaining_enemies_if_loss p = NaN \<and>
      estimated_remaining_territories_if_loss p = NaN) \<and>
   PredictAttack (\<lambda>k. 0) 0 \<lparr>def_string = ''5:0'', units_on_front = 5,
       territory_vector = [\<lparr>units = 0\<rparr>]\<rparr> 0 2 =
     Some (\<lparr>win_likelihood = Finite 1, estimated_remaining_units_if_win = Finite 4,
            estimated_remaining_enemies_if_loss = NaN,
            estimated_remaining_territories_if_loss = NaN,
            win_count = 2, loss_count = 0\<rparr>, 0)"
  using PredictAttack_counts [of "\<lambda>k. 0" 0 "\<lparr>def_string = ''2:1'', units_on_front = 2,
       territory_vector = [\<lparr>units = 1\<rparr>]\<rparr>" 0 0] PredictAttack_example
  by (auto simp: unat_eq_0)

section \<open>The range of the random generator\<close>

lemma card_mod_class:
  assumes "k < 6"
  shows "card {n :: nat. n \<le> m \<and> n mod 6 = k} = (m + 6 - k) div 6"
proof -
  have "{n :: nat. n \<le> m \<and> n mod 6 = k} = (\<lambda>q. 6 * q + k) ` {q. 6 * q + k \<le> m}"
  proof (intro set_eqI iffI)
    fix n assume "n \<in> {n. n \<le> m \<and> n mod 6 = k}"
    then have n: "n \<le> m" "n mod 6 = k" by simp_all
    have "n = 6 * (n div 6) + n mod 6" by simp
    with n show "n \<in> (\<lambda>q. 6 * q + k) ` {q. 6 * q + k \<le> m}"
      by (intro image_eqI [where x = "n div 6"]) simp_all
  next
    fix n assume "n \<in> (\<lambda>q. 6 * q + k) ` {q. 6 * q + k \<le> m}"
    then show "n \<in> {n. n \<le> m \<and> n mod 6 = k}" using assms by auto
  qed
  moreover have "{q. 6 * q + k \<le> m} = {..< (m + 6 - k) div 6}"
  proof (intro set_eqI)
    fix q
    have "q < (m + 6 - k) div 6 \<longleftrightarrow> Suc q \<le> (m + 6 - k) div 6" by auto
    also have "\<dots> \<longleftrightarrow> Suc q * 6 \<le> m + 6 - k"
      by (rule less_eq_div_iff_mult_less_eq) simp
    also have "\<dots> \<longleftrightarrow> 6 * q + k \<le> m" using assms by auto
    finally show "q \<in> {q. 6 * q + k \<le> m} \<longleftrightarrow> q \<in> {..< (m + 6 - k) div 6}" by simp
  qed
  moreover have "inj_on (\<lambda>q. 6 * q + k) {..< (m + 6 - k) div 6}"
    by (simp add: inj_on_def)
  ultimately show ?thesis by (simp add: card_image)
qed

lemma face_of_raw:
  assumes "1 \<le> f" "f \<le> 6"
  shows "(ucast (r :: 31 word) mod DICE_SIDES + 1 = (of_nat f :: uint)) \<longleftrightarrow> unat r mod 6 = f - 1"
proof -
  have "(ucast r mod DICE_SIDES + 1 = (of_nat f :: uint)) \<longleftrightarrow>
      unat (ucast r mod DICE_SIDES + 1 :: uint) = unat (of_nat f :: uint)"
    by (simp add: word_unat_eq_iff)
  also have "unat (of_nat f :: uint) = f" using assms by (simp add: unat_of_nat)
  also have "unat (ucast r mod DICE_SIDES + 1 :: uint) = unat r mod 6 + 1"
    by (simp add: unat_dice_value unat_ucast_raw)
  finally show ?thesis using assms by auto
qed

lemma card_raw_values_of_face:
  assumes "1 \<le> f" "f \<le> 6" "rand_max < 2147483648"
  shows "card (raw_values_of_face rand_max (of_nat f)) = (rand_max + 7 - f) div 6"
proof -
  define R where "R = {r :: 31 word. unat r \<le> rand_max \<and> unat r mod 6 = f - 1}"
  have e1: "raw_values_of_face rand_max (of_nat f) = R"
    unfolding raw_values_of_face_def UniformDiceRoll_eq R_def
    using face_of_raw [OF assms(1,2)] by simp
  have e2: "card (unat ` R) = card R"
    by (rule card_image) (simp add: inj_on_def word_unat_eq_iff)
  have e3: "unat ` R = {n. n \<le> rand_max \<and> n mod 6 = f - 1}"
  proof (intro set_eqI iffI)
    fix n assume "n \<in> unat ` R"
    then show "n \<in> {n. n \<le> rand_max \<and> n mod 6 = f - 1}" by (auto simp: R_def)
  next
    fix n assume n: "n \<in> {n. n \<le> rand_max \<and> n mod 6 = f - 1}"
    then have "n < 2 ^ 31" using assms(3) by simp
    then have "unat (of_nat n :: 31 word) = n" by (simp add: unat_of_nat)
    with n show "n \<in> unat ` R"
      by (intro image_eqI [where x = "of_nat n"]) (simp_all add: R_def)
  qed
  have e4: "card {n. n \<le> rand_max \<and> n mod 6 = f - 1} = (rand_max + 6 - (f - 1)) div 6"
    using assms by (intro card_mod_class) linarith
  have e5: "(rand_max + 6 - (f - 1)) div 6 = (rand_max + 7 - f) div 6" using assms by simp
  show ?thesis unfolding e1 e2 [symmetric] e3 e4 e5 by (rule refl)
qed

text \<open>
  Claim C7 says that the rejection loop leaves every face with the same number of accepted
  raw values, for every range of the generator. The code compares with the largest
  multiple of 6 below \<open>UINT_MAX\<close>, which no value of \<open>rand()\<close> reaches: every raw value is
  accepted at the first draw. With \<open>RAND_MAX = 2147483647\<close> the face 1 has 357913942 raw
  values and the face 3 has 357913941; with \<open>RAND_MAX = 32767\<close> they have 5462 and 5461.
\<close>

theorem UniformDiceRoll_modulo_bias:
  "(\<forall>g i. UniformDiceRoll g i = Some (ucast (g i) mod DICE_SIDES + 1, Suc i)) \<and>
   card (raw_values_of_face 2147483647 1) = 357913942 \<and>
   card (raw_values_of_face 2147483647 3) = 357913941 \<and>
   card (raw_values_of_face 32767 1) = 5462 \<and>
   card (raw_values_of_face 32767 3) = 5461"
proof -
  have "card (raw_values_of_face 2147483647 (of_nat 1)) = (2147483647 + 7 - 1) div 6"
    by (rule card_raw_values_of_face) simp_all
  moreover have "card (raw_values_of_face 2147483647 (of_nat 3)) = (2147483647 + 7 - 3) div 6"
    by (rule card_raw_values_of_face) simp_all
  moreover have "card (raw_values_of_face 32767 (of_nat 1)) = (32767 + 7 - 1) div 6"
    by (rule card_raw_values_of_face) simp_all
  moreover have "card (raw_values_of_face 32767 (of_nat 3)) = (32767 + 7 - 3) div 6"
    by (rule card_raw_values_of_face) simp_all
  ultimately show ?thesis by (simp add: UniformDiceRoll_eq)
qed

section \<open>Properties of \<open>float\<close> arithmetic\<close>

text \<open>
  Some values of the rounding: \<open>4/5\<close> becomes the \<open>float\<close> \<open>0.8f\<close>; \<open>2 ^ 24 + 1\<close> lies
  halfway between two values and goes to the even one; \<open>2 ^ 128\<close> overflows; the quotients
  of 1 and of 4 by 6 add up to the \<open>float\<close> with the bits \<open>0x3f555556\<close>.
\<close>

lemma binary32_rounding_examples:
  "binary32 (4 / 5) = Finite (13421773 / 16777216)"
  "binary32 16777217 = Finite 16777216"
  "binary32 16777219 = Finite 16777220"
  "binary32 (2 ^ 128) = PosInf"
  "float_ratio 1 6 = Finite (11184811 / 67108864)"
  "float_ratio 4 6 = Finite (11184811 / 16777216)"
  "float_add (Finite (11184811 / 67108864)) (Finite (11184811 / 16777216)) =
     Finite (6990507 / 8388608)"
  by code_simp+

lemma pow2_pos: "0 < pow2 k"
  by (simp add: pow2_def)

lemma round_half_even_nonneg: "0 \<le> x \<Longrightarrow> 0 \<le> round_half_even x"
  by (simp add: round_half_even_def Let_def)

lemma round_magnitude_nonneg: "0 \<le> x \<Longrightarrow> 0 \<le> round_magnitude x"
proof -
  assume x: "0 \<le> x"
  have "0 \<le> x / pow2 k" for k using x pow2_pos [of k] by simp
  then have "0 \<le> round_half_even (x / pow2 k)" for k by (rule round_half_even_nonneg)
  then have "0 \<le> rat_of_int (round_half_even (x / pow2 k)) * pow2 k" for k
    using pow2_pos [of k] by simp
  then show ?thesis by (simp add: round_magnitude_def Let_def)
qed

lemma binary32_nonneg: "0 \<le> x \<Longrightarrow> float_nonneg (binary32 x)"
  using round_magnitude_nonneg [of x] by (simp add: binary32_def Let_def)

lemma float_of_uint_nonneg: "0 \<le> float_of_uint a"
  unfolding float_of_uint_def by (rule round_magnitude_nonneg) (simp only: of_int_0_le_iff uint_ge_0)

lemma float_ratio_nonneg: "float_ratio a b = NaN \<or> float_nonneg (float_ratio a b)"
proof -
  have "0 \<le> float_of_uint a / float_of_uint b"
    using float_of_uint_nonneg [of a] float_of_uint_nonneg [of b] by simp
  then show ?thesis by (simp add: float_ratio_def binary32_nonneg)
qed

lemma float_add_nonneg:
  "float_nonneg a \<Longrightarrow> float_nonneg b \<Longrightarrow> float_nonneg (float_add a b)"
  by (cases a; cases b) (simp_all add: binary32_nonneg)

lemma float_sum_nonneg:
  "\<forall>x \<in> set xs. float_nonneg x \<Longrightarrow> float_nonneg (float_sum xs)"
  unfolding float_sum_def by (induction xs) (simp_all add: float_add_nonneg)

lemma float_nonneg_not_NaN: "float_nonneg a \<Longrightarrow> a \<noteq> NaN"
  by (cases a) simp_all

lemma gated_nonneg:
  "wl = NaN \<or> float_nonneg wl \<Longrightarrow> float_nonneg (gated_win_likelihood wl thr)"
  by (auto simp: gated_win_likelihood_def float_ge_def)

lemma float_less_negtrans:
  "a \<noteq> NaN \<Longrightarrow> b \<noteq> NaN \<Longrightarrow> c \<noteq> NaN \<Longrightarrow>
     \<not> float_less a b \<Longrightarrow> \<not> float_less b c \<Longrightarrow> \<not> float_less a c"
  by (cases a; cases b; cases c) simp_all

lemma float_less_asym: "float_less a b \<Longrightarrow> \<not> float_less b a"
  by (cases a; cases b) simp_all


section \<open>Properties of the allocation planner\<close>

lemma length_digits: "length (digits v b n) = v"
  by (induction v arbitrary: n) simp_all

lemma digits_zero: "digits v b 0 = replicate v 0"
  by (induction v) simp_all

lemma unat_digit: "b < 4294967295 \<Longrightarrow> unat (of_nat (n mod Suc b) :: uint) = n mod Suc b"
proof -
  assume "b < 4294967295"
  moreover have "n mod Suc b < Suc b" by simp
  ultimately have "n mod Suc b < 4294967296" by linarith
  then show ?thesis by (simp add: unat_of_nat)
qed

lemma digits_bounded:
  "b < 4294967295 \<Longrightarrow> \<forall>x \<in> set (digits v b n). unat x \<le> b"
proof (induction v arbitrary: n)
  case 0
  then show ?case by simp
next
  case (Suc v)
  have "n mod Suc b \<le> b" using mod_less_divisor [of "Suc b" n] by simp
  with Suc show ?case by (simp add: unat_digit)
qed

lemma digits_value_digits:
  "b < 4294967295 \<Longrightarrow> n < Suc b ^ v \<Longrightarrow> digits_value b (digits v b n) = n"
proof (induction v arbitrary: n)
  case 0
  then show ?case by simp
next
  case (Suc v)
  from Suc.prems(2) have "n div Suc b < Suc b ^ v"
    by (simp add: less_mult_imp_div_less mult.commute)
  with Suc have "digits_value b (digits v b (n div Suc b)) = n div Suc b" by simp
  then show ?case using Suc.prems(1) by (simp add: unat_digit del: mult_Suc)
qed

lemma digits_value_less:
  "\<forall>x \<in> set t. unat x \<le> b \<Longrightarrow> digits_value b t < Suc b ^ length t"
proof (induction t)
  case Nil
  then show ?case by simp
next
  case (Cons x t)
  then have x: "unat x \<le> b" and v: "digits_value b t < Suc b ^ length t" by simp_all
  from v have "Suc (digits_value b t) \<le> Suc b ^ length t" by simp
  then have "Suc b * Suc (digits_value b t) \<le> Suc b * Suc b ^ length t"
    by (rule mult_le_mono2)
  with x show ?case by simp
qed

lemma digits_digits_value:
  "\<forall>x \<in> set t. unat x \<le> b \<Longrightarrow> digits (length t) b (digits_value b t) = t"
proof (induction t)
  case Nil
  then show ?case by simp
next
  case (Cons x t)
  then have x: "unat x \<le> b" and IH: "digits (length t) b (digits_value b t) = t" by simp_all
  have m: "(unat x + Suc b * digits_value b t) mod Suc b = unat x"
    using x by (simp del: mult_Suc)
  have d: "(unat x + Suc b * digits_value b t) div Suc b = digits_value b t"
    using x by (simp del: mult_Suc)
  have mm: "unat x mod Suc b = unat x" using x by simp
  show ?case using IH by (simp del: mult_Suc add: m d mm)
qed

lemma NextCombination_digits:
  assumes b: "b < 4294967295" and B: "unat last_index = b"
  shows "n < Suc b ^ v \<Longrightarrow>
     NextCombination (digits v b n) last_index =
       (if Suc n < Suc b ^ v then (combinations_remain, digits v b (Suc n))
        else (combinations_exhausted, replicate v 0))"
proof (induction v arbitrary: n)
  case 0
  then show ?case by simp
next
  case (Suc v)
  define x :: uint where "x = of_nat (n mod Suc b)"
  have ux: "unat x = n mod Suc b" unfolding x_def using b by (rule unat_digit)
  have xb: "n mod Suc b \<le> b" using mod_less_divisor [of "Suc b" n] by simp
  have "Suc (n mod Suc b) < 4294967296" using xb b by linarith
  then have ux1: "unat (x + 1) = Suc (n mod Suc b)"
    using ux by (simp add: unat_word_ariths)
  have le: "x + 1 \<le> last_index \<longleftrightarrow> n mod Suc b < b"
    by (simp add: word_le_nat_alt ux1 B Suc_le_eq)
  have nd: "n div Suc b < Suc b ^ v"
    using Suc.prems by (simp add: less_mult_imp_div_less mult.commute)
  show ?case
  proof (cases "n mod Suc b < b")
    case True
    then have m: "Suc n mod Suc b = Suc (n mod Suc b)" by (simp add: mod_Suc)
    have d: "Suc n div Suc b = n div Suc b" using True by (simp add: div_Suc m)
    have "Suc n div Suc b < Suc b ^ v" using nd d by simp
    then have lt: "Suc n < Suc b ^ Suc v"
      by (simp add: div_less_iff_less_mult mult.commute del: mult_Suc)
    have "x + 1 = of_nat (Suc n mod Suc b)" unfolding m x_def by simp
    then show ?thesis using True le lt d by (simp add: x_def del: mult_Suc of_nat_Suc)
  next
    case False
    with xb have e: "n mod Suc b = b" by linarith
    then have m: "Suc n mod Suc b = 0" by (simp add: mod_Suc)
    have d: "Suc n div Suc b = Suc (n div Suc b)" using m by (simp add: div_Suc)
    have "Suc n div Suc b < Suc b ^ v \<longleftrightarrow> Suc n < Suc b ^ v * Suc b"
      by (rule div_less_iff_less_mult) simp
    then have lt: "Suc n < Suc b ^ Suc v \<longleftrightarrow> Suc (n div Suc b) < Suc b ^ v"
      unfolding d by (simp only: power_Suc mult.commute)
    have D: "digits (Suc v) b n = x # digits v b (n div Suc b)" by (simp add: x_def)
    have nle: "\<not> x + 1 \<le> last_index" using False le by simp
    have N: "NextCombination (digits (Suc v) b n) last_index =
        (let (state, indices') = NextCombination (digits v b (n div Suc b)) last_index
         in (state, 0 # indices'))"
      unfolding D using nle by simp
    have D': "digits (Suc v) b (Suc n) = 0 # digits v b (Suc (n div Suc b))"
      by (simp add: m d del: mult_Suc)
    show ?thesis
      unfolding N Suc.IH [OF nd] lt D' by simp
  qed
qed

lemma fill_plan_fold:
  "fold (\<lambda>index (total_bonus, plan).
             (total_bonus + idx ! index,
              \<lparr>total_score = float_add (total_score plan)
                               (setup_score (table ! index ! unat (idx ! index))),
               setups = table ! index ! unat (idx ! index) # setups plan\<rparr>))
        (rev [0 ..< n]) (tb, p) =
     (tb + sum_list (map ((!) idx) [0 ..< n]),
      \<lparr>total_score = fold (\<lambda>k s. float_add s (setup_score (table ! k ! unat (idx ! k))))
                       (rev [0 ..< n]) (total_score p),
       setups = map (\<lambda>k. table ! k ! unat (idx ! k)) [0 ..< n] @ setups p\<rparr>)"
proof (induction n arbitrary: tb p)
  case 0
  then show ?case by simp
next
  case (Suc n)
  show ?case by (simp add: Suc ac_simps)
qed

lemma fill_plan_eq:
  "fill_plan table idx =
     (sum_list idx,
      \<lparr>total_score = fold (\<lambda>k s. float_add s (setup_score (table ! k ! unat (idx ! k))))
                       (rev [0 ..< length idx]) (Finite 0),
       setups = chosen_setups table idx\<rparr>)"
  unfolding fill_plan_def Let_def fill_plan_fold chosen_setups_def
  by (simp add: map_nth)

lemma PlanWar_loop_digits:
  assumes b: "b < 4294967295" and B: "unat bonus_units = b"
  shows "n < Suc b ^ v \<Longrightarrow>
     PlanWar_loop table bonus_units (digits v b n) plans =
       Some (plans @ map (\<lambda>t. snd (fill_plan table t))
                      (filter (\<lambda>t. sum_list t = bonus_units)
                         (map (digits v b) [n ..< Suc b ^ v])),
             snd (fill_plan table (digits v b (Suc b ^ v - 1))))"
proof (induction "Suc b ^ v - n" arbitrary: n plans rule: less_induct)
  case less
  define plans' where "plans' =
     (if sum_list (digits v b n) \<noteq> bonus_units then plans
      else plans @ [snd (fill_plan table (digits v b n))])"
  have up: "[n ..< Suc b ^ v] = n # [Suc n ..< Suc b ^ v]"
    using less.prems by (rule upt_conv_Cons)
  have pl: "plans @ map (\<lambda>t. snd (fill_plan table t))
                      (filter (\<lambda>t. sum_list t = bonus_units)
                         (map (digits v b) [n ..< Suc b ^ v])) =
      plans' @ map (\<lambda>t. snd (fill_plan table t))
                      (filter (\<lambda>t. sum_list t = bonus_units)
                         (map (digits v b) [Suc n ..< Suc b ^ v]))"
    unfolding up plans'_def by simp
  show ?case
  proof (cases "Suc n < Suc b ^ v")
    case True
    have N: "NextCombination (digits v b n) bonus_units = (combinations_remain, digits v b (Suc n))"
      using NextCombination_digits [OF b B less.prems] True by simp
    have "PlanWar_loop table bonus_units (digits v b n) plans =
        PlanWar_loop table bonus_units (digits v b (Suc n)) plans'"
      by (subst PlanWar_loop.simps) (simp add: N fill_plan_eq plans'_def)
    also have "\<dots> = Some (plans' @ map (\<lambda>t. snd (fill_plan table t))
                      (filter (\<lambda>t. sum_list t = bonus_units)
                         (map (digits v b) [Suc n ..< Suc b ^ v])),
             snd (fill_plan table (digits v b (Suc b ^ v - 1))))"
      using True by (intro less.hyps) simp_all
    finally show ?thesis unfolding pl .
  next
    case False
    with less.prems have e: "n = Suc b ^ v - 1" by simp
    have N: "NextCombination (digits v b n) bonus_units = (combinations_exhausted, replicate v 0)"
      using NextCombination_digits [OF b B less.prems] False by simp
    have emp: "[Suc n ..< Suc b ^ v] = []" using False by simp
    have "PlanWar_loop table bonus_units (digits v b n) plans =
        Some (plans', snd (fill_plan table (digits v b n)))"
      by (subst PlanWar_loop.simps) (simp add: N fill_plan_eq plans'_def)
    then show ?thesis unfolding pl emp using e by simp
  qed
qed

lemma PredictAttack_likelihood:
  "\<exists>p i'. PredictAttack g i vector bonus_units sim_iterations = Some (p, i') \<and>
      (win_likelihood p = NaN \<or> float_nonneg (win_likelihood p))"
proof -
  from PredictAttack_returns [of g i vector bonus_units sim_iterations] obtain p i' where
    P: "PredictAttack g i vector bonus_units sim_iterations = Some (p, i')"
    and l: "win_likelihood p = float_ratio (win_count p) (win_count p + loss_count p)"
    by blast
  show ?thesis
    using P float_ratio_nonneg [of "win_count p" "win_count p + loss_count p"]
    unfolding l [symmetric] by blast
qed

lemma table_setup_nonneg:
  assumes "table_setup g vector thr iters b su"
  shows "float_nonneg (setup_score su)"
proof -
  from assms obtain i0 i1 where
    P: "PredictAttack g i0 vector (of_nat b) iters = Some (setup_prediction su, i1)"
    and s: "setup_score su = gated_win_likelihood (win_likelihood (setup_prediction su)) thr"
    unfolding table_setup_def by blast
  from PredictAttack_likelihood [of g i0 vector "of_nat b" iters] P
  have "win_likelihood (setup_prediction su) = NaN \<or>
      float_nonneg (win_likelihood (setup_prediction su))" by auto
  then show ?thesis unfolding s by (rule gated_nonneg)
qed

lemma PlanWar_row_returns:
  assumes B: "unat bonus_units < 4294967295"
  shows "unat bonus \<le> Suc (unat bonus_units) \<Longrightarrow>
     \<exists>row i'. PlanWar_row g i vector thr iters bonus bonus_units = Some (row, i') \<and>
      length row = Suc (unat bonus_units) - unat bonus \<and>
      (\<forall>j < length row. table_setup g vector thr iters (unat bonus + j) (row ! j))"
proof (induction "Suc (unat bonus_units) - unat bonus" arbitrary: bonus i rule: less_induct)
  case less
  show ?case
  proof (cases "bonus \<le> bonus_units")
    case False
    then have "unat bonus = Suc (unat bonus_units)"
      using less.prems by (simp add: word_le_nat_alt)
    moreover have "PlanWar_row g i vector thr iters bonus bonus_units = Some ([], i)"
      using False by (subst PlanWar_row.simps) simp
    ultimately show ?thesis by simp
  next
    case True
    then have le: "unat bonus \<le> unat bonus_units" by (simp add: word_le_nat_alt)
    with B have u1: "unat (bonus + 1) = Suc (unat bonus)" by (simp add: unat_word_ariths)
    obtain p i1 where P: "PredictAttack g i vector bonus iters = Some (p, i1)"
      using PredictAttack_likelihood by blast
    define su where "su = \<lparr>setup_prediction = p, setup_attack_vector = vector,
                        setup_bonus = bonus,
                        setup_score = (if float_ge (win_likelihood p) thr
                                       then win_likelihood p else Finite 0)\<rparr>"
    have "Suc (unat bonus_units) - unat (bonus + 1) < Suc (unat bonus_units) - unat bonus"
      using le u1 by simp
    moreover have "unat (bonus + 1) \<le> Suc (unat bonus_units)" using le u1 by simp
    ultimately obtain row i2 where
      R: "PlanWar_row g i1 vector thr iters (bonus + 1) bonus_units = Some (row, i2)"
      and len: "length row = Suc (unat bonus_units) - unat (bonus + 1)"
      and ok: "\<forall>j < length row. table_setup g vector thr iters (unat (bonus + 1) + j) (row ! j)"
      using less.hyps [of "bonus + 1" i1] by blast
    have E: "PlanWar_row g i vector thr iters bonus bonus_units = Some (su # row, i2)"
      using True P R by (subst PlanWar_row.simps) (simp add: su_def)
    have s: "table_setup g vector thr iters (unat bonus) su"
      unfolding table_setup_def gated_win_likelihood_def using P
      by (auto simp: su_def)
    have "\<forall>j < length (su # row). table_setup g vector thr iters (unat bonus + j) ((su # row) ! j)"
      using s ok u1 by (auto simp: nth_Cons split: nat.splits)
    moreover have "length (su # row) = Suc (unat bonus_units) - unat bonus"
      using len u1 le by simp
    ultimately show ?thesis using E by blast
  qed
qed

lemma PlanWar_setups_returns:
  assumes B: "unat bonus_units < 4294967295"
  shows "\<exists>table i'. PlanWar_setups g i vectors bonus_units thr iters = Some (table, i') \<and>
      length table = length vectors \<and>
      (\<forall>k < length vectors. length (table ! k) = Suc (unat bonus_units) \<and>
         (\<forall>b \<le> unat bonus_units. table_setup g (vectors ! k) thr iters b (table ! k ! b)))"
proof (induction vectors arbitrary: i)
  case Nil
  then show ?case by simp
next
  case (Cons vector vectors)
  have "unat (0 :: uint) \<le> Suc (unat bonus_units)" by simp
  from PlanWar_row_returns [OF B this, of g i vector thr iters]
  obtain row i1 where
    R: "PlanWar_row g i vector thr iters 0 bonus_units = Some (row, i1)"
    and len: "length row = Suc (unat bonus_units)"
    and ok: "\<forall>j < length row. table_setup g vector thr iters j (row ! j)"
    by auto
  have ok': "\<forall>b \<le> unat bonus_units. table_setup g vector thr iters b (row ! b)"
    using ok len by simp
  from Cons [of i1] obtain table i2 where
    T: "PlanWar_setups g i1 vectors bonus_units thr iters = Some (table, i2)"
    and tl: "length table = length vectors"
    and tok: "\<forall>k < length vectors. length (table ! k) = Suc (unat bonus_units) \<and>
         (\<forall>b \<le> unat bonus_units. table_setup g (vectors ! k) thr iters b (table ! k ! b))"
    by blast
  have E: "PlanWar_setups g i (vector # vectors) bonus_units thr iters = Some (row # table, i2)"
    using R T by simp
  have "\<forall>k < length (vector # vectors). length ((row # table) ! k) = Suc (unat bonus_units) \<and>
         (\<forall>b \<le> unat bonus_units.
            table_setup g ((vector # vectors) ! k) thr iters b ((row # table) ! k ! b))"
    using len ok' tok by (auto simp: nth_Cons split: nat.splits)
  with E tl show ?case by simp
qed

lemma distinct_digits:
  "b < 4294967295 \<Longrightarrow> distinct (map (digits v b) [0 ..< Suc b ^ v])"
proof -
  assume b: "b < 4294967295"
  have "inj_on (digits v b) (set [0 ..< Suc b ^ v])"
  proof (rule inj_onI)
    fix m n assume "m \<in> set [0 ..< Suc b ^ v]" "n \<in> set [0 ..< Suc b ^ v]"
      and e: "digits v b m = digits v b n"
    then have "m < Suc b ^ v" "n < Suc b ^ v" by simp_all
    then have "digits_value b (digits v b m) = m" "digits_value b (digits v b n) = n"
      using b by (simp_all add: digits_value_digits)
    with e show "m = n" by metis
  qed
  then show ?thesis by (simp add: distinct_map)
qed

lemma set_digits:
  assumes b: "b < 4294967295"
  shows "set (map (digits v b) [0 ..< Suc b ^ v]) =
     {t. length t = v \<and> (\<forall>x \<in> set t. unat x \<le> b)}"
proof (intro set_eqI iffI)
  fix t :: "uint list"
  assume "t \<in> set (map (digits v b) [0 ..< Suc b ^ v])"
  then obtain n where "t = digits v b n" by auto
  then show "t \<in> {t. length t = v \<and> (\<forall>x \<in> set t. unat x \<le> b)}"
    using digits_bounded [OF b, of v n] by (simp add: length_digits)
next
  fix t :: "uint list"
  assume "t \<in> {t. length t = v \<and> (\<forall>x \<in> set t. unat x \<le> b)}"
  then have l: "length t = v" and bd: "\<forall>x \<in> set t. unat x \<le> b" by simp_all
  have "digits_value b t < Suc b ^ v" using digits_value_less [OF bd] l by simp
  moreover have "digits v b (digits_value b t) = t" using digits_digits_value [OF bd] l by simp
  ultimately show "t \<in> set (map (digits v b) [0 ..< Suc b ^ v])"
    by (metis (no_types, lifting) atLeastLessThan_iff image_eqI list.set_map set_upt zero_le)
qed

lemma sum_unat_bounded:
  "\<forall>x \<in> set t. unat x \<le> b \<Longrightarrow> sum_list (map unat t) \<le> length t * b"
  by (induction t) auto

lemma unat_sum_list_mod:
  "unat (sum_list ws :: uint) = sum_list (map unat ws) mod 4294967296"
proof (induction ws)
  case Nil
  then show ?case by simp
next
  case (Cons w ws)
  have "unat (w + sum_list ws) = (unat w + unat (sum_list ws)) mod 4294967296"
    by (simp add: unat_word_ariths)
  also have "\<dots> = (unat w + sum_list (map unat ws)) mod 4294967296"
    unfolding Cons.IH by (rule mod_add_right_eq)
  finally show ?case by simp
qed

lemma mod_eq_self:
  fixes s b :: nat
  assumes "s mod 4294967296 = b" and "s < b + 4294967296"
  shows "s = b"
proof (cases "s < 4294967296")
  case True
  with assms(1) show ?thesis by simp
next
  case False
  then have "s mod 4294967296 = (s - 4294967296) mod 4294967296"
    by (simp add: le_mod_geq)
  moreover have "s - 4294967296 < 4294967296" using assms(2) False
    using mod_less_divisor [of 4294967296 s] assms(1) by linarith
  ultimately have "b = s - 4294967296" using assms(1) by simp
  with assms(2) False show ?thesis by linarith
qed

lemma admissible_word:
  fixes bonus_units :: uint
  assumes "sum_list (map unat t) = unat bonus_units"
  shows "sum_list t = bonus_units"
proof -
  have "unat bonus_units < 2 ^ 32"
    using unsigned_less [of bonus_units, where 'a = nat] by simp
  with assms have "sum_list (map unat t) < 4294967296" by simp
  then have "unat (sum_list t) = sum_list (map unat t)" by (rule unat_sum_list)
  with assms show ?thesis by (simp add: word_unat_eq_iff)
qed

lemma admissible_iff:
  fixes bonus_units :: uint
  assumes "\<forall>x \<in> set t. unat x \<le> unat bonus_units"
    and "(length t - 1) * unat bonus_units < 4294967296" and "t \<noteq> []"
  shows "sum_list t = bonus_units \<longleftrightarrow> sum_list (map unat t) = unat bonus_units"
proof
  assume "sum_list (map unat t) = unat bonus_units"
  then show "sum_list t = bonus_units" by (rule admissible_word)
next
  assume "sum_list t = bonus_units"
  then have m: "sum_list (map unat t) mod 4294967296 = unat bonus_units"
    using unat_sum_list_mod [of t] by simp
  have "length t * unat bonus_units = (length t - 1) * unat bonus_units + unat bonus_units"
    using assms(3) by (cases t) simp_all
  with sum_unat_bounded [OF assms(1)] assms(2)
  have "sum_list (map unat t) < unat bonus_units + 4294967296" by linarith
  with m show "sum_list (map unat t) = unat bonus_units" by (rule mod_eq_self)
qed

lemma chosen_setup_ok:
  assumes "table_ok g vectors bonus_units thr iters table"
    and "length t = length vectors" and "\<forall>x \<in> set t. unat x \<le> unat bonus_units"
    and "k < length vectors"
  shows "table_setup g (vectors ! k) thr iters (unat (t ! k)) (chosen_setups table t ! k)"
proof -
  have "unat (t ! k) \<le> unat bonus_units" using assms(2,3,4) by simp
  then have "table_setup g (vectors ! k) thr iters (unat (t ! k)) (table ! k ! unat (t ! k))"
    using assms(1,4) by (simp add: table_ok_def)
  then show ?thesis using assms(2,4) by (simp add: chosen_setups_def)
qed

lemma length_chosen_setups: "length (chosen_setups table t) = length t"
  by (simp add: chosen_setups_def)

lemma bonuses_chosen_setups:
  assumes "table_ok g vectors bonus_units thr iters table"
    and "length t = length vectors" and "\<forall>x \<in> set t. unat x \<le> unat bonus_units"
  shows "map setup_bonus (chosen_setups table t) = t"
proof (rule nth_equalityI)
  show "length (map setup_bonus (chosen_setups table t)) = length t"
    by (simp add: length_chosen_setups)
next
  fix k assume "k < length (map setup_bonus (chosen_setups table t))"
  then have k: "k < length vectors" using assms(2) by (simp add: length_chosen_setups)
  from chosen_setup_ok [OF assms k] have "setup_bonus (chosen_setups table t ! k) = of_nat (unat (t ! k))"
    by (simp add: table_setup_def)
  then show "map setup_bonus (chosen_setups table t) ! k = t ! k"
    using k assms(2) by (simp add: length_chosen_setups)
qed

lemma map_filter_id:
  "(\<And>x. x \<in> set xs \<Longrightarrow> f x = x) \<Longrightarrow> map f (filter P xs) = filter P xs"
  by (induction xs) auto

lemma PlanWar_loop_plans:
  assumes "unat (bonus_units :: uint) < 4294967295"
  shows "PlanWar_loop table bonus_units (InitCombinations v) [] =
     Some (map (\<lambda>t. snd (fill_plan table t))
             (filter (\<lambda>t. sum_list t = bonus_units)
                (map (digits v (unat bonus_units)) [0 ..< Suc (unat bonus_units) ^ v])),
           snd (fill_plan table (digits v (unat bonus_units) (Suc (unat bonus_units) ^ v - 1))))"
proof -
  have "0 < Suc (unat bonus_units) ^ v" by simp
  from PlanWar_loop_digits [OF assms refl this, where plans = "[]" and table = table]
  show ?thesis
    by (simp add: InitCombinations_def digits_zero)
qed

lemma plan_bonuses_fill_plan:
  assumes "table_ok g vectors bonus_units thr iters table"
    and "length t = length vectors" and "\<forall>x \<in> set t. unat x \<le> unat bonus_units"
  shows "plan_bonuses (snd (fill_plan table t)) = t"
  using bonuses_chosen_setups [OF assms] by (simp add: plan_bonuses_def fill_plan_eq)

lemma materialised_bonuses:
  assumes ok: "table_ok g vectors bonus_units thr iters table"
    and b: "unat bonus_units < 4294967295"
  shows "map plan_bonuses (map (\<lambda>t. snd (fill_plan table t))
             (filter (\<lambda>t. sum_list t = bonus_units)
                (map (digits (length vectors) (unat bonus_units))
                   [0 ..< Suc (unat bonus_units) ^ length vectors]))) =
         filter (\<lambda>t. sum_list t = bonus_units)
                (map (digits (length vectors) (unat bonus_units))
                   [0 ..< Suc (unat bonus_units) ^ length vectors])"
proof -
  have "\<And>t. t \<in> set (map (digits (length vectors) (unat bonus_units))
                   [0 ..< Suc (unat bonus_units) ^ length vectors]) \<Longrightarrow>
          plan_bonuses (snd (fill_plan table t)) = t"
  proof -
    fix t assume "t \<in> set (map (digits (length vectors) (unat bonus_units))
                   [0 ..< Suc (unat bonus_units) ^ length vectors])"
    then have "length t = length vectors \<and> (\<forall>x \<in> set t. unat x \<le> unat bonus_units)"
      unfolding set_digits [OF b] by simp
    then show "plan_bonuses (snd (fill_plan table t)) = t"
      using plan_bonuses_fill_plan [OF ok] by blast
  qed
  then have "map (\<lambda>t. plan_bonuses (snd (fill_plan table t)))
             (filter (\<lambda>t. sum_list t = bonus_units)
                (map (digits (length vectors) (unat bonus_units))
                   [0 ..< Suc (unat bonus_units) ^ length vectors])) =
         filter (\<lambda>t. sum_list t = bonus_units)
                (map (digits (length vectors) (unat bonus_units))
                   [0 ..< Suc (unat bonus_units) ^ length vectors])"
    by (rule map_filter_id)
  then show ?thesis by (simp add: comp_def)
qed

lemma admissible_tuples:
  fixes bonus_units :: uint
  assumes b: "unat bonus_units < 4294967295"
    and vb: "(v - 1) * unat bonus_units < 4294967296" and v: "0 < v"
  shows "set (filter (\<lambda>t. sum_list t = bonus_units)
                (map (digits v (unat bonus_units)) [0 ..< Suc (unat bonus_units) ^ v])) =
     {t. length t = v \<and> (\<forall>x \<in> set t. x \<le> bonus_units) \<and>
         sum_list (map unat t) = unat bonus_units}"
proof -
  have "\<And>t :: uint list. length t = v \<and> (\<forall>x \<in> set t. unat x \<le> unat bonus_units) \<Longrightarrow>
      sum_list t = bonus_units \<longleftrightarrow> sum_list (map unat t) = unat bonus_units"
  proof -
    fix t :: "uint list"
    assume t: "length t = v \<and> (\<forall>x \<in> set t. unat x \<le> unat bonus_units)"
    then have "t \<noteq> []" using v by auto
    with t vb show "sum_list t = bonus_units \<longleftrightarrow> sum_list (map unat t) = unat bonus_units"
      by (intro admissible_iff) simp_all
  qed
  then show ?thesis
    unfolding set_filter set_digits [OF b] by (auto simp: word_le_nat_alt)
qed

lemma admitted_tuples:
  fixes bonus_units :: uint
  assumes b: "unat bonus_units < 4294967295"
  shows "set (filter (\<lambda>t. sum_list t = bonus_units)
                (map (digits v (unat bonus_units)) [0 ..< Suc (unat bonus_units) ^ v])) =
     {t. length t = v \<and> (\<forall>x \<in> set t. x \<le> bonus_units) \<and> sum_list t = bonus_units}"
  unfolding set_filter set_digits [OF b] by (auto simp: word_le_nat_alt)

lemma tuples_2_2:
  "filter (\<lambda>t. sum_list t = (2 :: uint)) (map (digits 2 2) [0 ..< Suc 2 ^ 2]) =
     [ [2, 0], [1, 1], [0, 2] ]"
  by code_simp

lemma PlanWar_setups_table_ok:
  assumes "unat bonus_units < 4294967295"
  shows "\<exists>table i'. PlanWar_setups g i vectors bonus_units thr iters = Some (table, i') \<and>
      table_ok g vectors bonus_units thr iters table"
  using PlanWar_setups_returns [OF assms, of g i vectors thr iters]
  unfolding table_ok_def by blast

lemma uint_le_UINT_MAX: "(w :: uint) \<le> UINT_MAX"
proof -
  have "unat w < 2 ^ 32" using unsigned_less [of w, where 'a = nat] by simp
  then show ?thesis by (simp add: UINT_MAX_def word_le_nat_alt)
qed

lemma PlanWar_row_Some:
  assumes "PlanWar_row g i vector thr iters bonus bonus_units = Some r"
  shows "bonus_units \<noteq> UINT_MAX"
proof (rule PlanWar_row.raw_induct
         [where P = "\<lambda>g i vector thr iters bonus bonus_units r. bonus_units \<noteq> UINT_MAX",
          OF _ assms])
  fix row_loop g i vector thr iters and bonus bonus_units :: uint and r
  assume IH: "\<And>i vector thr iters bonus bonus_units b y.
      row_loop i vector thr iters bonus bonus_units b = Some y \<Longrightarrow> b \<noteq> UINT_MAX"
    and eq: "(if bonus \<le> bonus_units
      then case PredictAttack g i vector bonus iters of None \<Rightarrow> None
           | Some (p, i') \<Rightarrow>
               let setup = \<lparr>setup_prediction = p, setup_attack_vector = vector,
                              setup_bonus = bonus,
                              setup_score = if float_ge (win_likelihood p) thr
                                            then win_likelihood p else Finite 0\<rparr>
               in Option.bind (row_loop g i' vector thr iters (bonus + 1) bonus_units)
                    (\<lambda>(row, i''). Some (setup # row, i''))
      else Some ([], i)) = Some r"
  show "bonus_units \<noteq> UINT_MAX"
  proof
    assume m: "bonus_units = UINT_MAX"
    then have le: "bonus \<le> bonus_units" by (simp add: uint_le_UINT_MAX)
    from eq le obtain y i' where
      "row_loop g i' vector thr iters (bonus + 1) bonus_units = Some y"
      by (auto simp: Let_def split: option.splits bind_splits)
    from IH [OF this] m show False by simp
  qed
qed

lemma PlanWar_row_never_returns:
  "PlanWar_row g i vector thr iters bonus UINT_MAX = None"
  using PlanWar_row_Some [of g i vector thr iters bonus UINT_MAX] by (cases "PlanWar_row g i vector thr iters bonus UINT_MAX") auto

lemma PlanWar_never_returns:
  "PlanWar g i (vector # vectors) UINT_MAX thr iters = None"
  by (simp add: PlanWar_def PlanWar_row_never_returns)


lemma pool_below_UINT_MAX: "bonus_units \<noteq> UINT_MAX \<Longrightarrow> unat bonus_units < 4294967295"
proof -
  assume n: "bonus_units \<noteq> UINT_MAX"
  have "unat bonus_units < 2 ^ 32" using unsigned_less [of bonus_units, where 'a = nat] by simp
  moreover have "unat bonus_units \<noteq> 4294967295"
    using n by (simp add: UINT_MAX_def word_unat_eq_iff)
  ultimately show ?thesis by simp
qed

text \<open>
  Claim C2, for 1 to \<open>MAX_ATTACK_VECTORS\<close> vectors and a bonus pool \<open>B\<close> between 1 and
  \<open>UINT_MAX - 1\<close> such that \<open>(V - 1) * B < 2 ^ 32\<close>, so that the loops over \<open>bonus\<close> end and
  no sum of bonuses wraps. The first phase and the search loop return, no bonus tuple is
  made a plan twice, and the tuples made plans are exactly the tuples of one bonus per
  vector, each at most \<open>bonus_units\<close>, that sum to \<open>bonus_units\<close>; for two vectors and a
  pool of 2 they are (2,0), (1,1) and (0,2), in this order.
\<close>

theorem PlanWar_enumerates_tuples:
  assumes "attack_vectors \<noteq> []" and "length attack_vectors \<le> MAX_ATTACK_VECTORS"
    and "bonus_units \<noteq> 0" and "bonus_units \<noteq> UINT_MAX"
    and "(length attack_vectors - 1) * unat bonus_units < 2 ^ 32"
  shows "\<exists>table i' plans slot.
     PlanWar_setups g i attack_vectors bonus_units likelihood_threshold sim_iterations =
       Some (table, i') \<and>
     PlanWar_loop table bonus_units (InitCombinations (length attack_vectors)) [] =
       Some (plans, slot) \<and>
     distinct (map plan_bonuses plans) \<and>
     set (map plan_bonuses plans) =
       {t. length t = length attack_vectors \<and> (\<forall>x \<in> set t. x \<le> bonus_units) \<and>
           sum_list (map unat t) = unat bonus_units} \<and>
     (length attack_vectors = 2 \<and> bonus_units = 2 \<longrightarrow>
        map plan_bonuses plans = [ [2, 0], [1, 1], [0, 2] ])"
proof -
  have b: "unat bonus_units < 4294967295" by (rule pool_below_UINT_MAX [OF assms(4)])
  have vb: "(length attack_vectors - 1) * unat bonus_units < 4294967296"
    using assms(5) by simp
  have v: "0 < length attack_vectors" using assms(1) by simp
  obtain table i' where
    T: "PlanWar_setups g i attack_vectors bonus_units likelihood_threshold sim_iterations =
       Some (table, i')"
    and ok: "table_ok g attack_vectors bonus_units likelihood_threshold sim_iterations table"
    using PlanWar_setups_table_ok [OF b] by blast
  define tuples where "tuples = filter (\<lambda>t. sum_list t = bonus_units)
                (map (digits (length attack_vectors) (unat bonus_units))
                   [0 ..< Suc (unat bonus_units) ^ length attack_vectors])"
  define plans where "plans = map (\<lambda>t. snd (fill_plan table t)) tuples"
  define slot where "slot = snd (fill_plan table (digits (length attack_vectors) (unat bonus_units)
      (Suc (unat bonus_units) ^ length attack_vectors - 1)))"
  have L: "PlanWar_loop table bonus_units (InitCombinations (length attack_vectors)) [] =
       Some (plans, slot)"
    unfolding plans_def tuples_def slot_def by (rule PlanWar_loop_plans [OF b])
  have M: "map plan_bonuses plans = tuples"
    unfolding plans_def tuples_def by (rule materialised_bonuses [OF ok b])
  have D: "distinct tuples"
    unfolding tuples_def by (intro distinct_filter distinct_digits b)
  have S: "set tuples =
       {t. length t = length attack_vectors \<and> (\<forall>x \<in> set t. x \<le> bonus_units) \<and>
           sum_list (map unat t) = unat bonus_units}"
    unfolding tuples_def by (rule admissible_tuples [OF b vb v])
  have P: "length attack_vectors = 2 \<and> bonus_units = 2 \<longrightarrow> tuples = [ [2, 0], [1, 1], [0, 2] ]"
  proof
    assume "length attack_vectors = 2 \<and> bonus_units = 2"
    then show "tuples = [ [2, 0], [1, 1], [0, 2] ]"
      unfolding tuples_def using tuples_2_2 by simp
  qed
  show ?thesis
    apply (rule exI [of _ table], rule exI [of _ i'], rule exI [of _ plans],
           rule exI [of _ slot])
    unfolding M
    by (intro conjI T L D S P)
qed

theorem PlanWar_enumerates_tuples_witness:
  "[\<lparr>def_string = ''3:2,2'', units_on_front = 3, territory_vector = [\<lparr>units = 2\<rparr>, \<lparr>units = 2\<rparr>]\<rparr>,
    \<lparr>def_string = ''4:1'', units_on_front = 4, territory_vector = [\<lparr>units = 1\<rparr>]\<rparr>] \<noteq> [] \<and>
   length [\<lparr>def_string = ''3:2,2'', units_on_front = 3, territory_vector = [\<lparr>units = 2\<rparr>, \<lparr>units = 2\<rparr>]\<rparr>,
    \<lparr>def_string = ''4:1'', units_on_front = 4, territory_vector = [\<lparr>units = 1\<rparr>]\<rparr>]
     \<le> MAX_ATTACK_VECTORS \<and>
   (2 :: uint) \<noteq> 0 \<and> (2 :: uint) \<noteq> UINT_MAX \<and>
   (length [\<lparr>def_string = ''3:2,2'', units_on_front = 3, territory_vector = [\<lparr>units = 2\<rparr>, \<lparr>units = 2\<rparr>]\<rparr>,
    \<lparr>def_string = ''4:1'', units_on_front = 4, territory_vector = [\<lparr>units = 1\<rparr>]\<rparr>] - 1) *
     unat (2 :: uint) < 2 ^ 32 \<and>
   (\<exists>table i' plans slot.
     PlanWar_setups (\<lambda>k. 0) 0
       [\<lparr>def_string = ''3:2,2'', units_on_front = 3, territory_vector = [\<lparr>units = 2\<rparr>, \<lparr>units = 2\<rparr>]\<rparr>,
        \<lparr>def_string = ''4:1'', units_on_front = 4, territory_vector = [\<lparr>units = 1\<rparr>]\<rparr>]
       2 (Finite (4 / 5)) 10 = Some (table, i') \<and>
     PlanWar_loop table 2 (InitCombinations 2) [] = Some (plans, slot) \<and>
     distinct (map plan_bonuses plans) \<and>
     map plan_bonuses plans = [ [2, 0], [1, 1], [0, 2] ])"
proof -
  define vs where "vs =
    [\<lparr>def_string = ''3:2,2'', units_on_front = 3, territory_vector = [\<lparr>units = 2\<rparr>, \<lparr>units = 2\<rparr>]\<rparr>,
     \<lparr>def_string = ''4:1'', units_on_front = 4, territory_vector = [\<lparr>units = 1\<rparr>]\<rparr>]"
  have h1: "vs \<noteq> []" by (simp add: vs_def)
  have h2: "length vs \<le> MAX_ATTACK_VECTORS" by (simp add: vs_def MAX_ATTACK_VECTORS_def)
  have h3: "(2 :: uint) \<noteq> 0" by simp
  have h4: "(2 :: uint) \<noteq> UINT_MAX" by (simp add: UINT_MAX_def)
  have h5: "(length vs - 1) * unat (2 :: uint) < 2 ^ 32" by (simp add: vs_def)
  have l: "length vs = 2" by (simp add: vs_def)
  from PlanWar_enumerates_tuples [OF h1 h2 h3 h4 h5, of "\<lambda>k. 0" 0 "Finite (4 / 5)" 10]
  have "\<exists>table i' plans slot.
     PlanWar_setups (\<lambda>k. 0) 0 vs 2 (Finite (4 / 5)) 10 = Some (table, i') \<and>
     PlanWar_loop table 2 (InitCombinations 2) [] = Some (plans, slot) \<and>
     distinct (map plan_bonuses plans) \<and>
     map plan_bonuses plans = [ [2, 0], [1, 1], [0, 2] ]"
    unfolding l by (elim exE conjE) (intro exI conjI, assumption+, simp)
  with h1 h2 h3 h4 h5 show ?thesis unfolding vs_def by (intro conjI)
qed

text \<open>
  Outside these bounds the statement of claim C2, which speaks of every vector count and
  every bonus pool of at least 1, fails. The code counts the bonus of a setup and the
  total bonus of a tuple in \<open>unsigned int\<close>. With a pool of \<open>UINT_MAX\<close> the test
  \<open>bonus <= bonus_units\<close> of the first phase never fails, and \<open>PlanWar\<close> makes no plan at
  all: the phase never ends. With three vectors and a pool of \<open>2 ^ 31\<close> the loop makes a
  plan of the tuple \<open>(2 ^ 31, 2 ^ 31, 2 ^ 31)\<close>, whose bonuses add up to three times the
  pool: their \<open>unsigned int\<close> sum wraps to \<open>2 ^ 31\<close>.
\<close>

theorem PlanWar_enumeration_overflow:
  "PlanWar_setups (\<lambda>k. 0) 0
     [\<lparr>def_string = ''4:1'', units_on_front = 4, territory_vector = [\<lparr>units = 1\<rparr>]\<rparr>]
     4294967295 (Finite (1 / 2)) 1 = None \<and>
   (\<exists>table i' plans slot.
      PlanWar_setups (\<lambda>k. 0) 0
        [\<lparr>def_string = ''4:1'', units_on_front = 4, territory_vector = [\<lparr>units = 1\<rparr>]\<rparr>,
         \<lparr>def_string = ''4:1'', units_on_front = 4, territory_vector = [\<lparr>units = 1\<rparr>]\<rparr>,
         \<lparr>def_string = ''4:1'', units_on_front = 4, territory_vector = [\<lparr>units = 1\<rparr>]\<rparr>]
        2147483648 (Finite (1 / 2)) 1 = Some (table, i') \<and>
      PlanWar_loop table 2147483648 (InitCombinations 3) [] = Some (plans, slot) \<and>
      [2147483648, 2147483648, 2147483648] \<in> set (map plan_bonuses plans) \<and>
      sum_list (map unat [2147483648, 2147483648, 2147483648 :: uint]) = 6442450944 \<and>
      unat (2147483648 :: uint) = 2147483648)"
proof -
  define v where "v = \<lparr>def_string = ''4:1'', units_on_front = 4, territory_vector = [\<lparr>units = 1\<rparr>]\<rparr>"
  define B :: uint where "B = 2147483648"
  have uB: "unat B = 2147483648" by (simp add: B_def)
  have b: "unat B < 4294967295" by (simp add: uB)
  have n: "PlanWar_setups (\<lambda>k. 0) 0 [v] 4294967295 (Finite (1 / 2)) 1 = None"
    using PlanWar_row_never_returns [of "\<lambda>k. 0" 0 v "Finite (1 / 2)" 1 0]
    by (simp add: UINT_MAX_def)
  obtain table i' where
    T: "PlanWar_setups (\<lambda>k. 0) 0 [v, v, v] B (Finite (1 / 2)) 1 = Some (table, i')"
    and ok: "table_ok (\<lambda>k. 0) [v, v, v] B (Finite (1 / 2)) 1 table"
    using PlanWar_setups_table_ok [OF b] by blast
  define every where "every = map (digits 3 (unat B)) [0 ..< Suc (unat B) ^ 3]"
  define plans where "plans = map (\<lambda>t. snd (fill_plan table t))
      (filter (\<lambda>t. sum_list t = B) every)"
  define slot where "slot = snd (fill_plan table (digits 3 (unat B) (Suc (unat B) ^ 3 - 1)))"
  have l3: "length [v, v, v] = 3" by simp
  have L: "PlanWar_loop table B (InitCombinations 3) [] = Some (plans, slot)"
    unfolding plans_def every_def slot_def by (rule PlanWar_loop_plans [OF b])
  have M: "map plan_bonuses plans = filter (\<lambda>t. sum_list t = B) every"
    unfolding plans_def every_def using materialised_bonuses [OF ok b] unfolding l3 .
  have "set every = {t. length t = 3 \<and> (\<forall>x \<in> set t. unat x \<le> unat B)}"
    unfolding every_def by (rule set_digits [OF b])
  then have "[B, B, B] \<in> set every" by simp
  moreover have "sum_list [B, B, B] = B" by (simp add: B_def)
  ultimately have I: "[B, B, B] \<in> set (map plan_bonuses plans)"
    unfolding M by simp
  have s: "sum_list (map unat [B, B, B]) = 6442450944" by (simp add: uB)
  have "\<exists>table i' plans slot.
      PlanWar_setups (\<lambda>k. 0) 0 [v, v, v] B (Finite (1 / 2)) 1 = Some (table, i') \<and>
      PlanWar_loop table B (InitCombinations 3) [] = Some (plans, slot) \<and>
      [B, B, B] \<in> set (map plan_bonuses plans) \<and>
      sum_list (map unat [B, B, B]) = 6442450944 \<and> unat B = 2147483648"
    using T L I s uB by (intro exI [of _ table] exI [of _ i'] exI [of _ plans] exI [of _ slot]) simp
  with n show ?thesis unfolding v_def B_def by (intro conjI)
qed

lemma total_score_fill_plan:
  "total_score (snd (fill_plan table t)) = float_sum (map setup_score (chosen_setups table t))"
proof -
  have "fold (\<lambda>k s. float_add s (sc k)) (rev [0 ..< n]) a =
      foldr (\<lambda>x s. float_add s x) (map sc [0 ..< n]) a" for sc n a
    by (simp add: foldr_conv_fold rev_map fold_map comp_def)
  then show ?thesis
    unfolding fill_plan_eq snd_conv float_sum_def chosen_setups_def
    by (simp add: comp_def)
qed

lemma chosen_scores:
  assumes ok: "table_ok g vectors bonus_units thr iters table"
    and l: "length t = length vectors" and bd: "\<forall>x \<in> set t. unat x \<le> unat bonus_units"
  shows "\<forall>s \<in> set (chosen_setups table t).
     setup_score s = gated_win_likelihood (win_likelihood (setup_prediction s)) thr \<and>
     float_nonneg (setup_score s)"
proof
  fix s assume "s \<in> set (chosen_setups table t)"
  then obtain k where k: "k < length vectors" and s: "s = chosen_setups table t ! k"
    using l by (auto simp: in_set_conv_nth length_chosen_setups)
  have ts: "table_setup g (vectors ! k) thr iters (unat (t ! k)) s"
    unfolding s by (rule chosen_setup_ok [OF ok l bd k])
  then have "setup_score s = gated_win_likelihood (win_likelihood (setup_prediction s)) thr"
    unfolding table_setup_def by blast
  with table_setup_nonneg [OF ts]
  show "setup_score s = gated_win_likelihood (win_likelihood (setup_prediction s)) thr \<and>
     float_nonneg (setup_score s)" by blast
qed

lemma gated_total_fill_plan:
  assumes ok: "table_ok g vectors bonus_units thr iters table"
    and l: "length t = length vectors" and bd: "\<forall>x \<in> set t. unat x \<le> unat bonus_units"
  shows "total_score (snd (fill_plan table t)) = gated_total thr (chosen_setups table t)"
    and "float_nonneg (total_score (snd (fill_plan table t)))"
proof -
  note c = chosen_scores [OF ok l bd]
  have e: "map setup_score (chosen_setups table t) =
      map (\<lambda>s. gated_win_likelihood (win_likelihood (setup_prediction s)) thr)
        (chosen_setups table t)"
    using c by (intro map_cong refl) blast
  show "total_score (snd (fill_plan table t)) = gated_total thr (chosen_setups table t)"
    unfolding total_score_fill_plan gated_total_def e by (rule refl)
  have "\<forall>x \<in> set (map setup_score (chosen_setups table t)). float_nonneg x"
    using c by auto
  then show "float_nonneg (total_score (snd (fill_plan table t)))"
    unfolding total_score_fill_plan by (rule float_sum_nonneg)
qed

lemma hd_qsort_insert:
  "hd (qsort_insert cmp x ys) =
     (if ys = [] then x else if cmp x (hd ys) \<le> 0 then x else hd ys)"
  by (cases ys) simp_all

lemma qsort_Nil_iff: "qsort cmp xs = [] \<longleftrightarrow> xs = []"
  using length_qsort [of cmp xs] by (metis length_0_conv)

lemma ComparePlan_le:
  "ComparePlan l r \<le> 0 \<longleftrightarrow> \<not> float_less (total_score l) (total_score r)"
  by (simp add: ComparePlan_def)

lemma hd_qsort_ComparePlan:
  assumes "\<forall>p \<in> set plans. total_score p \<noteq> NaN" and "plans \<noteq> []"
  shows "hd (qsort ComparePlan plans) \<in> set plans \<and>
     (\<forall>p \<in> set plans.
        \<not> float_less (total_score (hd (qsort ComparePlan plans))) (total_score p))"
  using assms
proof (induction plans)
  case Nil
  then show ?case by simp
next
  case (Cons x xs)
  have nx: "total_score x \<noteq> NaN" using Cons.prems(1) by simp
  have irr: "\<not> float_less (total_score x) (total_score x)"
    using float_less_asym by blast
  show ?case
  proof (cases "xs = []")
    case True
    then show ?thesis using irr by simp
  next
    case False
    define h where "h = hd (qsort ComparePlan xs)"
    have IH: "h \<in> set xs" "\<forall>p \<in> set xs. \<not> float_less (total_score h) (total_score p)"
      using Cons.IH Cons.prems(1) False unfolding h_def by auto
    have nh: "total_score h \<noteq> NaN" using Cons.prems(1) IH(1) by simp
    have ne: "qsort ComparePlan xs \<noteq> []" using False by (simp add: qsort_Nil_iff)
    have H: "hd (qsort ComparePlan (x # xs)) =
        (if \<not> float_less (total_score x) (total_score h) then x else h)"
      using ne by (simp add: hd_qsort_insert h_def ComparePlan_le)
    show ?thesis
    proof (cases "float_less (total_score x) (total_score h)")
      case True
      then have "\<not> float_less (total_score h) (total_score x)" by (rule float_less_asym)
      with True IH show ?thesis unfolding H by simp
    next
      case nl: False
      have "\<not> float_less (total_score x) (total_score p)" if "p \<in> set xs" for p
      proof -
        have "total_score p \<noteq> NaN" using Cons.prems(1) that by simp
        moreover have "\<not> float_less (total_score h) (total_score p)" using IH(2) that by simp
        ultimately show ?thesis using float_less_negtrans [OF nx nh _ nl] by blast
      qed
      with nl irr show ?thesis unfolding H by simp
    qed
  qed
qed

lemma first_tuple_admissible:
  fixes bonus_units :: uint
  assumes "vectors \<noteq> []"
  shows "length (bonus_units # replicate (length vectors - 1) 0) = length vectors \<and>
     (\<forall>x \<in> set (bonus_units # replicate (length vectors - 1) (0 :: uint)). x \<le> bonus_units) \<and>
     sum_list (map unat (bonus_units # replicate (length vectors - 1) 0)) = unat bonus_units"
proof -
  have "sum_list (map unat (replicate n (0 :: uint))) = 0" for n by (induction n) simp_all
  moreover have "0 < length vectors" using assms by simp
  ultimately show ?thesis by auto
qed

text \<open>
  Claim C1, for 1 to \<open>MAX_ATTACK_VECTORS\<close> vectors and a bonus pool \<open>B\<close> between 1 and
  \<open>UINT_MAX - 1\<close>. \<open>PlanWar\<close> returns a plan with one setup per vector, each the table's
  setup of that vector for its bonus, with a score that is the win likelihood of its
  prediction if that reaches the threshold and 0 otherwise. The \<open>unsigned int\<close> sum of the
  bonuses of the plan is \<open>bonus_units\<close>, and the bonuses sum to \<open>bonus_units\<close> as numbers
  when \<open>(V - 1) * B < 2 ^ 32\<close>, where no sum of bonuses wraps. The total score of the plan
  is the sum of the gated win likelihoods of its setups, added in \<open>float\<close> arithmetic, and it
  is greater than or equal to the total, added the same way, of the setups that any tuple
  of bonuses summing to \<open>bonus_units\<close> selects.
\<close>

theorem PlanWar_reports_best_plan:
  assumes "attack_vectors \<noteq> []" and "length attack_vectors \<le> MAX_ATTACK_VECTORS"
    and "bonus_units \<noteq> 0" and "bonus_units \<noteq> UINT_MAX"
  shows "\<exists>table i1 plan i'.
     PlanWar_setups g i attack_vectors bonus_units likelihood_threshold sim_iterations =
       Some (table, i1) \<and>
     table_ok g attack_vectors bonus_units likelihood_threshold sim_iterations table \<and>
     PlanWar g i attack_vectors bonus_units likelihood_threshold sim_iterations =
       Some (plan, i') \<and>
     length (setups plan) = length attack_vectors \<and>
     (\<forall>k < length attack_vectors.
        setup_attack_vector (setups plan ! k) = attack_vectors ! k \<and>
        setups plan ! k = table ! k ! unat (setup_bonus (setups plan ! k)) \<and>
        setup_score (setups plan ! k) =
          (if float_ge (win_likelihood (setup_prediction (setups plan ! k))) likelihood_threshold
           then win_likelihood (setup_prediction (setups plan ! k)) else Finite 0)) \<and>
     sum_list (map setup_bonus (setups plan)) = bonus_units \<and>
     ((length attack_vectors - 1) * unat bonus_units < 2 ^ 32 \<longrightarrow>
        sum_list (map (unat \<circ> setup_bonus) (setups plan)) = unat bonus_units) \<and>
     total_score plan = gated_total likelihood_threshold (setups plan) \<and>
     (\<forall>t. length t = length attack_vectors \<and> sum_list (map unat t) = unat bonus_units \<longrightarrow>
        float_ge (total_score plan) (gated_total likelihood_threshold (chosen_setups table t)))"
proof -
  have b: "unat bonus_units < 4294967295" by (rule pool_below_UINT_MAX [OF assms(4)])
  let ?v = "length attack_vectors"
  obtain table i1 where
    T: "PlanWar_setups g i attack_vectors bonus_units likelihood_threshold sim_iterations =
       Some (table, i1)"
    and ok: "table_ok g attack_vectors bonus_units likelihood_threshold sim_iterations table"
    using PlanWar_setups_table_ok [OF b] by blast
  define tuples where "tuples = filter (\<lambda>t. sum_list t = bonus_units)
                (map (digits ?v (unat bonus_units)) [0 ..< Suc (unat bonus_units) ^ ?v])"
  define plans where "plans = map (\<lambda>t. snd (fill_plan table t)) tuples"
  define slot where "slot = snd (fill_plan table (digits ?v (unat bonus_units)
      (Suc (unat bonus_units) ^ ?v - 1)))"
  define plan where "plan = hd (qsort ComparePlan plans)"
  have L: "PlanWar_loop table bonus_units (InitCombinations ?v) [] = Some (plans, slot)"
    unfolding plans_def tuples_def slot_def by (rule PlanWar_loop_plans [OF b])
  have S: "set tuples =
       {t. length t = ?v \<and> (\<forall>x \<in> set t. x \<le> bonus_units) \<and> sum_list t = bonus_units}"
    unfolding tuples_def by (rule admitted_tuples [OF b])
  have valid: "length t = ?v \<and> (\<forall>x \<in> set t. unat x \<le> unat bonus_units) \<and>
           sum_list t = bonus_units" if "t \<in> set tuples" for t
    using that unfolding S by (simp add: word_le_nat_alt)
  have admitted: "t \<in> set tuples"
    if "length t = ?v \<and> sum_list (map unat t) = unat bonus_units" for t
  proof -
    have "\<forall>x \<in> set t. unat x \<le> sum_list (map unat t)"
      by (auto intro: member_le_sum_list)
    moreover have "sum_list t = bonus_units" using that by (intro admissible_word) simp
    ultimately show ?thesis unfolding S using that by (simp add: word_le_nat_alt)
  qed
  have "bonus_units # replicate (?v - 1) 0 \<in> set tuples"
    using first_tuple_admissible [OF assms(1), of bonus_units] by (intro admitted) blast
  then have tne: "tuples \<noteq> []" by auto
  then have pne: "plans \<noteq> []" by (simp add: plans_def)
  have score: "total_score (snd (fill_plan table t)) =
        gated_total likelihood_threshold (chosen_setups table t)"
    and nonneg: "float_nonneg (total_score (snd (fill_plan table t)))"
    if "t \<in> set tuples" for t
    using valid [OF that] gated_total_fill_plan [OF ok] by blast+
  have fin: "\<forall>p \<in> set plans. total_score p \<noteq> NaN"
    unfolding plans_def using nonneg float_nonneg_not_NaN by auto
  from hd_qsort_ComparePlan [OF fin pne]
  have pin: "plan \<in> set plans"
    and pmax: "\<forall>p \<in> set plans. \<not> float_less (total_score plan) (total_score p)"
    unfolding plan_def by simp_all
  from pin obtain t0 where t0: "t0 \<in> set tuples" and pt: "plan = snd (fill_plan table t0)"
    unfolding plans_def by auto
  note v0 = valid [OF t0]
  have v0l: "length t0 = ?v" and v0b: "\<forall>x \<in> set t0. unat x \<le> unat bonus_units"
    and v0s: "sum_list t0 = bonus_units" using v0 by simp_all
  have st: "setups plan = chosen_setups table t0" by (simp add: pt fill_plan_eq)
  have bon: "map setup_bonus (setups plan) = t0"
    unfolding st by (rule bonuses_chosen_setups [OF ok v0l v0b])
  have qne: "qsort ComparePlan plans \<noteq> []" using pne by (simp add: qsort_Nil_iff)
  have P: "PlanWar g i attack_vectors bonus_units likelihood_threshold sim_iterations =
       Some (plan, i1)"
    using T L qne by (simp add: PlanWar_def plan_def)
  have c1: "length (setups plan) = ?v" by (simp add: st length_chosen_setups v0l)
  have c2: "\<forall>k < ?v.
        setup_attack_vector (setups plan ! k) = attack_vectors ! k \<and>
        setups plan ! k = table ! k ! unat (setup_bonus (setups plan ! k)) \<and>
        setup_score (setups plan ! k) =
          (if float_ge (win_likelihood (setup_prediction (setups plan ! k))) likelihood_threshold
           then win_likelihood (setup_prediction (setups plan ! k)) else Finite 0)"
  proof (intro allI impI)
    fix k assume k: "k < ?v"
    have ts: "table_setup g (attack_vectors ! k) likelihood_threshold sim_iterations
        (unat (t0 ! k)) (setups plan ! k)"
      unfolding st by (rule chosen_setup_ok [OF ok v0l v0b k])
    have "setup_bonus (setups plan ! k) = t0 ! k"
      using bon k c1 by (metis nth_map)
    moreover have "setups plan ! k = table ! k ! unat (t0 ! k)"
      using k v0l by (simp add: st chosen_setups_def)
    ultimately have e: "setups plan ! k = table ! k ! unat (setup_bonus (setups plan ! k))"
      by simp
    from ts have "setup_attack_vector (setups plan ! k) = attack_vectors ! k"
      and "setup_score (setups plan ! k) =
          (if float_ge (win_likelihood (setup_prediction (setups plan ! k))) likelihood_threshold
           then win_likelihood (setup_prediction (setups plan ! k)) else Finite 0)"
      unfolding table_setup_def gated_win_likelihood_def by blast+
    with e show "setup_attack_vector (setups plan ! k) = attack_vectors ! k \<and>
        setups plan ! k = table ! k ! unat (setup_bonus (setups plan ! k)) \<and>
        setup_score (setups plan ! k) =
          (if float_ge (win_likelihood (setup_prediction (setups plan ! k))) likelihood_threshold
           then win_likelihood (setup_prediction (setups plan ! k)) else Finite 0)"
      by (intro conjI)
  qed
  have c3: "sum_list (map setup_bonus (setups plan)) = bonus_units"
    using v0s bon by simp
  have c3': "(?v - 1) * unat bonus_units < 2 ^ 32 \<longrightarrow>
        sum_list (map (unat \<circ> setup_bonus) (setups plan)) = unat bonus_units"
  proof
    assume "(?v - 1) * unat bonus_units < 2 ^ 32"
    then have "(length t0 - 1) * unat bonus_units < 4294967296" using v0l by simp
    moreover have "t0 \<noteq> []" using v0l assms(1) by auto
    ultimately have "sum_list (map unat t0) = unat bonus_units"
      using admissible_iff [OF v0b] v0s by blast
    then show "sum_list (map (unat \<circ> setup_bonus) (setups plan)) = unat bonus_units"
      using bon by (metis map_map)
  qed
  have c4: "total_score plan = gated_total likelihood_threshold (setups plan)"
    unfolding st unfolding pt by (rule score [OF t0])
  have np: "total_score plan \<noteq> NaN" using fin pin by blast
  have c5: "\<forall>t. length t = ?v \<and> sum_list (map unat t) = unat bonus_units \<longrightarrow>
        float_ge (total_score plan) (gated_total likelihood_threshold (chosen_setups table t))"
  proof (intro allI impI)
    fix t :: "uint list"
    assume t: "length t = ?v \<and> sum_list (map unat t) = unat bonus_units"
    have tin: "t \<in> set tuples" using t by (rule admitted)
    then have pin': "snd (fill_plan table t) \<in> set plans" by (simp add: plans_def)
    have sc: "total_score (snd (fill_plan table t)) =
        gated_total likelihood_threshold (chosen_setups table t)"
      by (rule score [OF tin])
    have "total_score (snd (fill_plan table t)) \<noteq> NaN" using fin pin' by blast
    moreover have "\<not> float_less (total_score plan) (total_score (snd (fill_plan table t)))"
      using pmax pin' by blast
    ultimately show "float_ge (total_score plan)
        (gated_total likelihood_threshold (chosen_setups table t))"
      using np unfolding sc float_ge_def by simp
  qed
  show ?thesis
    apply (rule exI [of _ table], rule exI [of _ i1], rule exI [of _ plan],
           rule exI [of _ i1])
    by (intro conjI T ok P c1 c2 c3 c3' c4 c5)
qed

text \<open>
  An example run: the vectors \<open>1:1\<close> and \<open>5:0\<close>, a pool of 1 unit, a threshold of \<open>1/4\<close>
  and 3 simulations per setup, on a random stream whose first die is a 6 and whose other
  dice are 1. The first vector with the bonus wins one fight of three, the second vector
  wins without a fight.
\<close>

lemma PlanWar_row_stop:
  "\<not> bonus \<le> bonus_units \<Longrightarrow>
     PlanWar_row g i vector thr iters bonus bonus_units = Some ([], i)"
  by (subst PlanWar_row.simps) simp

lemma PlanWar_row_step:
  "bonus \<le> bonus_units \<Longrightarrow> PredictAttack g i vector bonus iters = Some (p, i') \<Longrightarrow>
   PlanWar_row g i' vector thr iters (bonus + 1) bonus_units = Some (row, i'') \<Longrightarrow>
   PlanWar_row g i vector thr iters bonus bonus_units =
     Some (\<lparr>setup_prediction = p, setup_attack_vector = vector, setup_bonus = bonus,
            setup_score = gated_win_likelihood (win_likelihood p) thr\<rparr> # row, i'')"
  by (subst PlanWar_row.simps) (simp add: gated_win_likelihood_def)

lemma RollDice_examples:
  "RollDice (\<lambda>k. if k = 0 then 5 else 0) 0 (Suc 0) = Some ([6], Suc 0)"
  "RollDice (\<lambda>k. if k = 0 then 5 else 0) (Suc 0) (Suc 0) = Some ([1], 2)"
  "RollDice (\<lambda>k. if k = 0 then 5 else 0) 2 (Suc 0) = Some ([1], 3)"
  "RollDice (\<lambda>k. if k = 0 then 5 else 0) 3 (Suc 0) = Some ([1], 4)"
  "RollDice (\<lambda>k. if k = 0 then 5 else 0) 4 (Suc 0) = Some ([1], 5)"
  "RollDice (\<lambda>k. if k = 0 then 5 else 0) 5 (Suc 0) = Some ([1], 6)"
  by (simp_all add: RollDice_def UniformDiceRoll_eq DICE_SIDES_def)

lemma compare_dice_examples:
  "compare_dice [6] [1] (Suc 0) = (0, 1)" "compare_dice [1] [1] (Suc 0) = (1, 0)"
  by code_simp+

lemma SingleAttack_examples:
  "SingleAttack (\<lambda>k. if k = 0 then 5 else 0) 0 2 1 = Some (2, 0, 2)"
  "SingleAttack (\<lambda>k. if k = 0 then 5 else 0) 2 2 1 = Some (1, 1, 4)"
  "SingleAttack (\<lambda>k. if k = 0 then 5 else 0) 4 2 1 = Some (1, 1, 6)"
proof -
  have u: "unat (min (2 - 1 :: uint) 3) = Suc 0" "unat (min (1 :: uint) 2) = Suc 0"
    "unat (min (min (2 - 1 :: uint) 3) (min 1 2)) = Suc 0" by simp_all
  show "SingleAttack (\<lambda>k. if k = 0 then 5 else 0) 0 2 1 = Some (2, 0, 2)"
    unfolding SingleAttack_def Let_def MIN_TERRITORY_UNITS_def MAX_ATTACK_DICE_COUNT_def
      MAX_DEFEND_DICE_COUNT_def u
    by (simp add: RollDice_examples compare_dice_examples)
  show "SingleAttack (\<lambda>k. if k = 0 then 5 else 0) 2 2 1 = Some (1, 1, 4)"
    unfolding SingleAttack_def Let_def MIN_TERRITORY_UNITS_def MAX_ATTACK_DICE_COUNT_def
      MAX_DEFEND_DICE_COUNT_def u
    by (simp add: RollDice_examples compare_dice_examples)
  show "SingleAttack (\<lambda>k. if k = 0 then 5 else 0) 4 2 1 = Some (1, 1, 6)"
    unfolding SingleAttack_def Let_def MIN_TERRITORY_UNITS_def MAX_ATTACK_DICE_COUNT_def
      MAX_DEFEND_DICE_COUNT_def u
    by (simp add: RollDice_examples compare_dice_examples)
qed

lemma AttackTerritory_examples:
  "AttackTerritory (\<lambda>k. if k = 0 then 5 else 0) 0 2 1 = Some (2, 0, 2)"
  "AttackTerritory (\<lambda>k. if k = 0 then 5 else 0) 2 2 1 = Some (1, 1, 4)"
  "AttackTerritory (\<lambda>k. if k = 0 then 5 else 0) 4 2 1 = Some (1, 1, 6)"
proof -
  have "AttackTerritory (\<lambda>k. if k = 0 then 5 else 0) 0 2 1 = AttackTerritory (\<lambda>k. if k = 0 then 5 else 0) 2 2 0"
    by (subst AttackTerritory.simps) (simp add: SingleAttack_examples MIN_TERRITORY_UNITS_def)
  also have "\<dots> = Some (2, 0, 2)" by (rule AttackTerritory_stop) simp
  finally show "AttackTerritory (\<lambda>k. if k = 0 then 5 else 0) 0 2 1 = Some (2, 0, 2)" .
  have "AttackTerritory (\<lambda>k. if k = 0 then 5 else 0) 2 2 1 = AttackTerritory (\<lambda>k. if k = 0 then 5 else 0) 4 1 1"
    by (subst AttackTerritory.simps) (simp add: SingleAttack_examples MIN_TERRITORY_UNITS_def)
  also have "\<dots> = Some (1, 1, 4)"
    by (rule AttackTerritory_stop) (simp add: MIN_TERRITORY_UNITS_def)
  finally show "AttackTerritory (\<lambda>k. if k = 0 then 5 else 0) 2 2 1 = Some (1, 1, 4)" .
  have "AttackTerritory (\<lambda>k. if k = 0 then 5 else 0) 4 2 1 = AttackTerritory (\<lambda>k. if k = 0 then 5 else 0) 6 1 1"
    by (subst AttackTerritory.simps) (simp add: SingleAttack_examples MIN_TERRITORY_UNITS_def)
  also have "\<dots> = Some (1, 1, 6)"
    by (rule AttackTerritory_stop) (simp add: MIN_TERRITORY_UNITS_def)
  finally show "AttackTerritory (\<lambda>k. if k = 0 then 5 else 0) 4 2 1 = Some (1, 1, 6)" .
qed

lemma float_ratio_thirds:
  "float_ratio 0 3 = Finite 0" "float_ratio 1 3 = Finite (11184811 / 33554432)"
  "float_ratio 3 3 = Finite 1" "float_ratio 1 1 = Finite 1" "float_ratio 2 2 = Finite 1"
  "float_ratio 12 3 = Finite 4" "float_ratio 15 3 = Finite 5" "float_ratio 0 0 = NaN"
  by code_simp+

lemma PredictAttack_examples:
  "PredictAttack (\<lambda>k. if k = 0 then 5 else 0) 0
     \<lparr>def_string = ''1:1'', units_on_front = 1, territory_vector = [\<lparr>units = 1\<rparr>]\<rparr> 0 3 =
   Some (\<lparr>win_likelihood = Finite 0, estimated_remaining_units_if_win = NaN,
          estimated_remaining_enemies_if_loss = Finite 1,
          estimated_remaining_territories_if_loss = Finite 1,
          win_count = 0, loss_count = 3\<rparr>, 0)"
  "PredictAttack (\<lambda>k. if k = 0 then 5 else 0) 0
     \<lparr>def_string = ''1:1'', units_on_front = 1, territory_vector = [\<lparr>units = 1\<rparr>]\<rparr> 1 3 =
   Some (\<lparr>win_likelihood = Finite (11184811 / 33554432), estimated_remaining_units_if_win = Finite 1,
          estimated_remaining_enemies_if_loss = Finite 1,
          estimated_remaining_territories_if_loss = Finite 1,
          win_count = 1, loss_count = 2\<rparr>, 6)"
  "PredictAttack (\<lambda>k. if k = 0 then 5 else 0) 6
     \<lparr>def_string = ''5:0'', units_on_front = 5, territory_vector = [\<lparr>units = 0\<rparr>]\<rparr> 0 3 =
   Some (\<lparr>win_likelihood = Finite 1, estimated_remaining_units_if_win = Finite 4,
          estimated_remaining_enemies_if_loss = NaN,
          estimated_remaining_territories_if_loss = NaN,
          win_count = 3, loss_count = 0\<rparr>, 6)"
  "PredictAttack (\<lambda>k. if k = 0 then 5 else 0) 6
     \<lparr>def_string = ''5:0'', units_on_front = 5, territory_vector = [\<lparr>units = 0\<rparr>]\<rparr> 1 3 =
   Some (\<lparr>win_likelihood = Finite 1, estimated_remaining_units_if_win = Finite 5,
          estimated_remaining_enemies_if_loss = NaN,
          estimated_remaining_territories_if_loss = NaN,
          win_count = 3, loss_count = 0\<rparr>, 6)"
proof -
  have u: "unat (3 :: uint) = Suc (Suc (Suc 0))" by simp
  show "PredictAttack (\<lambda>k. if k = 0 then 5 else 0) 0
     \<lparr>def_string = ''1:1'', units_on_front = 1, territory_vector = [\<lparr>units = 1\<rparr>]\<rparr> 0 3 =
   Some (\<lparr>win_likelihood = Finite 0, estimated_remaining_units_if_win = NaN,
          estimated_remaining_enemies_if_loss = Finite 1,
          estimated_remaining_territories_if_loss = Finite 1,
          win_count = 0, loss_count = 3\<rparr>, 0)"
    unfolding PredictAttack_def u
    by (simp add: PredictAttack_run_def SimAttack_def AttackTerritory_stop
        MIN_TERRITORY_UNITS_def float_ratio_thirds enemy_units_remaining_def
        territory_count_def)
  show "PredictAttack (\<lambda>k. if k = 0 then 5 else 0) 0
     \<lparr>def_string = ''1:1'', units_on_front = 1, territory_vector = [\<lparr>units = 1\<rparr>]\<rparr> 1 3 =
   Some (\<lparr>win_likelihood = Finite (11184811 / 33554432), estimated_remaining_units_if_win = Finite 1,
          estimated_remaining_enemies_if_loss = Finite 1,
          estimated_remaining_territories_if_loss = Finite 1,
          win_count = 1, loss_count = 2\<rparr>, 6)"
    unfolding PredictAttack_def u
    by (simp add: PredictAttack_run_def SimAttack_def AttackTerritory_examples
        MIN_TERRITORY_UNITS_def float_ratio_thirds enemy_units_remaining_def
        territory_count_def)
  show "PredictAttack (\<lambda>k. if k = 0 then 5 else 0) 6
     \<lparr>def_string = ''5:0'', units_on_front = 5, territory_vector = [\<lparr>units = 0\<rparr>]\<rparr> 0 3 =
   Some (\<lparr>win_likelihood = Finite 1, estimated_remaining_units_if_win = Finite 4,
          estimated_remaining_enemies_if_loss = NaN,
          estimated_remaining_territories_if_loss = NaN,
          win_count = 3, loss_count = 0\<rparr>, 6)"
    unfolding PredictAttack_def u
    by (simp add: PredictAttack_run_def SimAttack_def AttackTerritory_stop
        MIN_TERRITORY_UNITS_def float_ratio_thirds enemy_units_remaining_def
        territory_count_def)
  show "PredictAttack (\<lambda>k. if k = 0 then 5 else 0) 6
     \<lparr>def_string = ''5:0'', units_on_front = 5, territory_vector = [\<lparr>units = 0\<rparr>]\<rparr> 1 3 =
   Some (\<lparr>win_likelihood = Finite 1, estimated_remaining_units_if_win = Finite 5,
          estimated_remaining_enemies_if_loss = NaN,
          estimated_remaining_territories_if_loss = NaN,
          win_count = 3, loss_count = 0\<rparr>, 6)"
    unfolding PredictAttack_def u
    by (simp add: PredictAttack_run_def SimAttack_def AttackTerritory_stop
        MIN_TERRITORY_UNITS_def float_ratio_thirds enemy_units_remaining_def
        territory_count_def)
qed


lemma float_add_examples:
  "float_add (Finite 0) (Finite 1) = Finite 1" "float_add (Finite 1) (Finite 0) = Finite 1"
  "float_add (Finite 1) (Finite (11184811 / 33554432)) = Finite (11184811 / 8388608)"
  by code_simp+

lemma tuples_2_1:
  "filter (\<lambda>t. sum_list t = (1 :: uint))
     (map (digits 2 (unat (1 :: uint))) [0 ..< Suc (unat (1 :: uint)) ^ 2]) =
   [ [1, 0], [0, 1] ]"
  by code_simp

lemma PlanWar_example:
  fixes g :: rand_stream
  defines "g \<equiv> \<lambda>k. if k = 0 then 5 else 0"
  defines "A \<equiv> \<lparr>def_string = ''1:1'', units_on_front = 1, territory_vector = [\<lparr>units = 1\<rparr>]\<rparr>"
  defines "Bv \<equiv> \<lparr>def_string = ''5:0'', units_on_front = 5, territory_vector = [\<lparr>units = 0\<rparr>]\<rparr>"
  defines "lost \<equiv> \<lparr>win_likelihood = Finite 0, estimated_remaining_units_if_win = NaN,
          estimated_remaining_enemies_if_loss = Finite 1,
          estimated_remaining_territories_if_loss = Finite 1,
          win_count = 0, loss_count = 3\<rparr>"
  defines "third \<equiv> \<lparr>win_likelihood = Finite (11184811 / 33554432), estimated_remaining_units_if_win = Finite 1,
          estimated_remaining_enemies_if_loss = Finite 1,
          estimated_remaining_territories_if_loss = Finite 1,
          win_count = 1, loss_count = 2\<rparr>"
  defines "won4 \<equiv> \<lparr>win_likelihood = Finite 1, estimated_remaining_units_if_win = Finite 4,
          estimated_remaining_enemies_if_loss = NaN,
          estimated_remaining_territories_if_loss = NaN,
          win_count = 3, loss_count = 0\<rparr>"
  defines "won5 \<equiv> \<lparr>win_likelihood = Finite 1, estimated_remaining_units_if_win = Finite 5,
          estimated_remaining_enemies_if_loss = NaN,
          estimated_remaining_territories_if_loss = NaN,
          win_count = 3, loss_count = 0\<rparr>"
  defines "table \<equiv>
    [ [\<lparr>setup_prediction = lost, setup_attack_vector = A, setup_bonus = 0, setup_score = Finite 0\<rparr>,
       \<lparr>setup_prediction = third, setup_attack_vector = A, setup_bonus = 1,
         setup_score = Finite (11184811 / 33554432)\<rparr>],
      [\<lparr>setup_prediction = won4, setup_attack_vector = Bv, setup_bonus = 0, setup_score = Finite 1\<rparr>,
       \<lparr>setup_prediction = won5, setup_attack_vector = Bv, setup_bonus = 1, setup_score = Finite 1\<rparr>] ]"
  shows "PlanWar_setups g 0 [A, Bv] 1 (Finite (1 / 4)) 3 = Some (table, 6)"
    and "PlanWar g 0 [A, Bv] 1 (Finite (1 / 4)) 3 =
      Some (\<lparr>total_score = Finite (11184811 / 8388608),
             setups = [\<lparr>setup_prediction = third, setup_attack_vector = A, setup_bonus = 1,
                         setup_score = Finite (11184811 / 33554432)\<rparr>,
                       \<lparr>setup_prediction = won4, setup_attack_vector = Bv, setup_bonus = 0,
                         setup_score = Finite 1\<rparr>]\<rparr>, 6)"
    and "gated_total (Finite (1 / 4)) (chosen_setups table [0, 1]) = Finite 1"
proof -
  note P = PredictAttack_examples [folded g_def A_def Bv_def lost_def third_def won4_def won5_def]
  have gl: "gated_win_likelihood (Finite 0) (Finite (1 / 4)) = Finite 0"
    "gated_win_likelihood (Finite 1) (Finite (1 / 4)) = Finite 1"
    "gated_win_likelihood (Finite (11184811 / 33554432)) (Finite (1 / 4)) =
       Finite (11184811 / 33554432)"
    by (simp_all add: gated_win_likelihood_def float_ge_def)
  have wl: "win_likelihood lost = Finite 0" "win_likelihood third = Finite (11184811 / 33554432)"
    "win_likelihood won4 = Finite 1" "win_likelihood won5 = Finite 1"
    by (simp_all add: lost_def third_def won4_def won5_def)
  have stop: "PlanWar_row g i v (Finite (1 / 4)) 3 (1 + 1) 1 = Some ([], i)" for i v
    by (rule PlanWar_row_stop) (simp add: word_le_nat_alt)
  have rA1: "PlanWar_row g 0 A (Finite (1 / 4)) 3 1 1 = Some (tl (table ! 0), 6)"
    using PlanWar_row_step [OF _ P(2) stop] by (simp add: table_def wl gl)
  have rA: "PlanWar_row g 0 A (Finite (1 / 4)) 3 0 1 = Some (table ! 0, 6)"
    using PlanWar_row_step [OF _ P(1), of 1 "Finite (1 / 4)" "tl (table ! 0)" 6] rA1
    by (simp add: table_def wl gl)
  have rB1: "PlanWar_row g 6 Bv (Finite (1 / 4)) 3 1 1 = Some (tl (table ! 1), 6)"
    using PlanWar_row_step [OF _ P(4) stop] by (simp add: table_def wl gl)
  have rB: "PlanWar_row g 6 Bv (Finite (1 / 4)) 3 0 1 = Some (table ! 1, 6)"
    using PlanWar_row_step [OF _ P(3), of 1 "Finite (1 / 4)" "tl (table ! 1)" 6] rB1
    by (simp add: table_def wl gl)
  have t: "table = [table ! 0, table ! 1]" by (simp add: table_def)
  show T: "PlanWar_setups g 0 [A, Bv] 1 (Finite (1 / 4)) 3 = Some (table, 6)"
    by (subst t) (simp add: rA rB)
  have b: "unat (1 :: uint) < 4294967295" by simp
  have L: "PlanWar_loop table 1 (InitCombinations 2) [] =
      Some (map (\<lambda>t. snd (fill_plan table t)) [ [1, 0], [0, 1] ],
            snd (fill_plan table (digits 2 (unat (1 :: uint)) (Suc (unat (1 :: uint)) ^ 2 - 1))))"
    using PlanWar_loop_plans [OF b, of table 2] unfolding tuples_2_1 .
  have f1: "snd (fill_plan table [1, 0]) =
      \<lparr>total_score = Finite (11184811 / 8388608), setups = [table ! 0 ! 1, table ! 1 ! 0]\<rparr>"
    unfolding fill_plan_eq chosen_setups_def
    by (simp add: table_def float_add_examples upt_rec del: float_add.simps)
  have f2: "snd (fill_plan table [0, 1]) =
      \<lparr>total_score = Finite 1, setups = [table ! 0 ! 0, table ! 1 ! 1]\<rparr>"
    unfolding fill_plan_eq chosen_setups_def
    by (simp add: table_def float_add_examples upt_rec del: float_add.simps)
  have q: "hd (qsort ComparePlan (map (\<lambda>t. snd (fill_plan table t)) [ [1, 0], [0, 1] ]) @ [slot]) =
      \<lparr>total_score = Finite (11184811 / 8388608), setups = [table ! 0 ! 1, table ! 1 ! 0]\<rparr>" for slot
    by (simp add: f1 f2 ComparePlan_def)
  have l: "length [A, Bv] = 2" by simp
  have "PlanWar g 0 [A, Bv] 1 (Finite (1 / 4)) 3 =
      Some (\<lparr>total_score = Finite (11184811 / 8388608),
             setups = [table ! 0 ! 1, table ! 1 ! 0]\<rparr>, 6)"
    unfolding PlanWar_def T l by (simp only: L option.case prod.case q)
  then show "PlanWar g 0 [A, Bv] 1 (Finite (1 / 4)) 3 =
      Some (\<lparr>total_score = Finite (11184811 / 8388608),
             setups = [\<lparr>setup_prediction = third, setup_attack_vector = A, setup_bonus = 1,
                         setup_score = Finite (11184811 / 33554432)\<rparr>,
                       \<lparr>setup_prediction = won4, setup_attack_vector = Bv, setup_bonus = 0,
                         setup_score = Finite 1\<rparr>]\<rparr>, 6)"
    by (simp add: table_def)
  show "gated_total (Finite (1 / 4)) (chosen_setups table [0, 1]) = Finite 1"
    unfolding gated_total_def chosen_setups_def float_sum_def
    by (simp add: table_def wl gl float_add_examples upt_rec del: float_add.simps)
qed

theorem PlanWar_reports_best_plan_witness:
  "[\<lparr>def_string = ''1:1'', units_on_front = 1, territory_vector = [\<lparr>units = 1\<rparr>]\<rparr>,
      \<lparr>def_string = ''5:0'', units_on_front = 5, territory_vector = [\<lparr>units = 0\<rparr>]\<rparr>] \<noteq> [] \<and>
   length [\<lparr>def_string = ''1:1'', units_on_front = 1, territory_vector = [\<lparr>units = 1\<rparr>]\<rparr>,
      \<lparr>def_string = ''5:0'', units_on_front = 5, territory_vector = [\<lparr>units = 0\<rparr>]\<rparr>] \<le> MAX_ATTACK_VECTORS \<and>
   (1 :: uint) \<noteq> 0 \<and> (1 :: uint) \<noteq> UINT_MAX \<and>
   (length [\<lparr>def_string = ''1:1'', units_on_front = 1, territory_vector = [\<lparr>units = 1\<rparr>]\<rparr>,
      \<lparr>def_string = ''5:0'', units_on_front = 5, territory_vector = [\<lparr>units = 0\<rparr>]\<rparr>] - 1) * unat (1 :: uint) < 2 ^ 32 \<and>
   PlanWar (\<lambda>k. if k = 0 then 5 else 0) 0
     [\<lparr>def_string = ''1:1'', units_on_front = 1, territory_vector = [\<lparr>units = 1\<rparr>]\<rparr>,
      \<lparr>def_string = ''5:0'', units_on_front = 5, territory_vector = [\<lparr>units = 0\<rparr>]\<rparr>] 1 (Finite (1 / 4)) 3 =
     Some (\<lparr>total_score = Finite (11184811 / 8388608),
            setups =
              [\<lparr>setup_prediction =
                  \<lparr>win_likelihood = Finite (11184811 / 33554432), estimated_remaining_units_if_win = Finite 1,
                  estimated_remaining_enemies_if_loss = Finite 1,
                  estimated_remaining_territories_if_loss = Finite 1,
                  win_count = 1, loss_count = 2\<rparr>,
                setup_attack_vector = \<lparr>def_string = ''1:1'', units_on_front = 1, territory_vector = [\<lparr>units = 1\<rparr>]\<rparr>,
                setup_bonus = 1, setup_score = Finite (11184811 / 33554432)\<rparr>,
               \<lparr>setup_prediction =
                  \<lparr>win_likelihood = Finite 1, estimated_remaining_units_if_win = Finite 4,
                  estimated_remaining_enemies_if_loss = NaN,
                  estimated_remaining_territories_if_loss = NaN,
                  win_count = 3, loss_count = 0\<rparr>,
                setup_attack_vector = \<lparr>def_string = ''5:0'', units_on_front = 5, territory_vector = [\<lparr>units = 0\<rparr>]\<rparr>,
                setup_bonus = 0, setup_score = Finite 1\<rparr>]\<rparr>, 6) \<and>
   (\<exists>table i1 plan i'.
      PlanWar_setups (\<lambda>k. if k = 0 then 5 else 0) 0
        [\<lparr>def_string = ''1:1'', units_on_front = 1, territory_vector = [\<lparr>units = 1\<rparr>]\<rparr>,
      \<lparr>def_string = ''5:0'', units_on_front = 5, territory_vector = [\<lparr>units = 0\<rparr>]\<rparr>] 1 (Finite (1 / 4)) 3 = Some (table, i1) \<and>
      PlanWar (\<lambda>k. if k = 0 then 5 else 0) 0
        [\<lparr>def_string = ''1:1'', units_on_front = 1, territory_vector = [\<lparr>units = 1\<rparr>]\<rparr>,
      \<lparr>def_string = ''5:0'', units_on_front = 5, territory_vector = [\<lparr>units = 0\<rparr>]\<rparr>] 1 (Finite (1 / 4)) 3 = Some (plan, i') \<and>
      length (setups plan) = 2 \<and>
      sum_list (map (unat \<circ> setup_bonus) (setups plan)) = 1 \<and>
      total_score plan = gated_total (Finite (1 / 4)) (setups plan) \<and>
      gated_total (Finite (1 / 4)) (chosen_setups table [0, 1]) = Finite 1 \<and>
      float_ge (total_score plan) (gated_total (Finite (1 / 4)) (chosen_setups table [0, 1])))"
proof -
  define g :: rand_stream where "g = (\<lambda>k. if k = 0 then 5 else 0)"
  define A where "A = \<lparr>def_string = ''1:1'', units_on_front = 1, territory_vector = [\<lparr>units = 1\<rparr>]\<rparr>"
  define Bv where "Bv = \<lparr>def_string = ''5:0'', units_on_front = 5, territory_vector = [\<lparr>units = 0\<rparr>]\<rparr>"
  note E = PlanWar_example [folded g_def A_def Bv_def]
  have h1: "[A, Bv] \<noteq> []" by simp
  have h2: "length [A, Bv] \<le> MAX_ATTACK_VECTORS" by (simp add: MAX_ATTACK_VECTORS_def)
  have h3: "(1 :: uint) \<noteq> 0" by simp
  have h4: "(1 :: uint) \<noteq> UINT_MAX" by (simp add: UINT_MAX_def)
  have h5: "(length [A, Bv] - 1) * unat (1 :: uint) < 2 ^ 32" by simp
  have t: "length [0, 1 :: uint] = length [A, Bv] \<and>
      sum_list (map unat [0, 1 :: uint]) = unat (1 :: uint)" by simp
  from PlanWar_reports_best_plan [OF h1 h2 h3 h4, of g 0 "Finite (1 / 4)" 3]
  obtain table i1 plan i' where
    T: "PlanWar_setups g 0 [A, Bv] 1 (Finite (1 / 4)) 3 = Some (table, i1)"
    and P: "PlanWar g 0 [A, Bv] 1 (Finite (1 / 4)) 3 = Some (plan, i')"
    and l: "length (setups plan) = length [A, Bv]"
    and bc: "(length [A, Bv] - 1) * unat (1 :: uint) < 2 ^ 32 \<longrightarrow>
        sum_list (map (unat \<circ> setup_bonus) (setups plan)) = unat (1 :: uint)"
    and s: "total_score plan = gated_total (Finite (1 / 4)) (setups plan)"
    and m: "\<forall>t. length t = length [A, Bv] \<and> sum_list (map unat t) = unat (1 :: uint) \<longrightarrow>
        float_ge (total_score plan) (gated_total (Finite (1 / 4)) (chosen_setups table t))"
    by blast
  have m': "float_ge (total_score plan)
      (gated_total (Finite (1 / 4)) (chosen_setups table [0, 1]))"
    using m t by blast
  have z: "gated_total (Finite (1 / 4)) (chosen_setups table [0, 1]) = Finite 1"
    using T E(1) E(3) by simp
  have l': "length (setups plan) = 2" using l by simp
  have b': "sum_list (map (unat \<circ> setup_bonus) (setups plan)) = 1" using bc h5 by simp
  have X: "\<exists>table i1 plan i'.
      PlanWar_setups g 0 [A, Bv] 1 (Finite (1 / 4)) 3 = Some (table, i1) \<and>
      PlanWar g 0 [A, Bv] 1 (Finite (1 / 4)) 3 = Some (plan, i') \<and>
      length (setups plan) = 2 \<and>
      sum_list (map (unat \<circ> setup_bonus) (setups plan)) = 1 \<and>
      total_score plan = gated_total (Finite (1 / 4)) (setups plan) \<and>
      gated_total (Finite (1 / 4)) (chosen_setups table [0, 1]) = Finite 1 \<and>
      float_ge (total_score plan) (gated_total (Finite (1 / 4)) (chosen_setups table [0, 1]))"
    by (intro exI [of _ table] exI [of _ i1] exI [of _ plan] exI [of _ i'] conjI T P l' b' s z m')
  show ?thesis
    using h1 h2 h3 h4 h5 E(2) X unfolding g_def A_def Bv_def by (intro conjI)
qed

text \<open>
  With a pool of \<open>UINT_MAX\<close>, and for a sum of numbers in place of the sum in \<open>float\<close>
  arithmetic, the statement of claim C1 fails. With that pool, which is not zero, the
  first phase of \<open>PlanWar\<close> never ends, since \<open>bonus <= bonus_units\<close> holds for
  every \<open>unsigned int\<close>: no plan is reported. In the run of the example above the scores of
  the reported plan are \<open>11184811 / 33554432\<close> (the \<open>float\<close> quotient of 1 by 3) and 1, and
  its total score is \<open>11184811 / 8388608\<close>: the sum of the two, rounded to 24 binary
  digits.
\<close>

theorem PlanWar_best_plan_counterexample:
  "(4294967295 :: uint) \<noteq> 0 \<and>
   PlanWar (\<lambda>k. 0) 0
     [\<lparr>def_string = ''4:1'', units_on_front = 4, territory_vector = [\<lparr>units = 1\<rparr>]\<rparr>]
     4294967295 (Finite (1 / 2)) 1 = None \<and>
   PlanWar (\<lambda>k. if k = 0 then 5 else 0) 0
     [\<lparr>def_string = ''1:1'', units_on_front = 1, territory_vector = [\<lparr>units = 1\<rparr>]\<rparr>,
      \<lparr>def_string = ''5:0'', units_on_front = 5, territory_vector = [\<lparr>units = 0\<rparr>]\<rparr>] 1 (Finite (1 / 4)) 3 =
     Some (\<lparr>total_score = Finite (11184811 / 8388608),
            setups =
              [\<lparr>setup_prediction =
                  \<lparr>win_likelihood = Finite (11184811 / 33554432), estimated_remaining_units_if_win = Finite 1,
                  estimated_remaining_enemies_if_loss = Finite 1,
                  estimated_remaining_territories_if_loss = Finite 1,
                  win_count = 1, loss_count = 2\<rparr>,
                setup_attack_vector = \<lparr>def_string = ''1:1'', units_on_front = 1, territory_vector = [\<lparr>units = 1\<rparr>]\<rparr>,
                setup_bonus = 1, setup_score = Finite (11184811 / 33554432)\<rparr>,
               \<lparr>setup_prediction =
                  \<lparr>win_likelihood = Finite 1, estimated_remaining_units_if_win = Finite 4,
                  estimated_remaining_enemies_if_loss = NaN,
                  estimated_remaining_territories_if_loss = NaN,
                  win_count = 3, loss_count = 0\<rparr>,
                setup_attack_vector = \<lparr>def_string = ''5:0'', units_on_front = 5, territory_vector = [\<lparr>units = 0\<rparr>]\<rparr>,
                setup_bonus = 0, setup_score = Finite 1\<rparr>]\<rparr>, 6) \<and>
   (11184811 / 33554432 + 1 :: rat) \<noteq> 11184811 / 8388608"
  using PlanWar_never_returns
    [of "\<lambda>k. 0" 0 "\<lparr>def_string = ''4:1'', units_on_front = 4, territory_vector = [\<lparr>units = 1\<rparr>]\<rparr>"
      "[]" "Finite (1 / 2)" 1]
    PlanWar_example(2)
  by (simp add: UINT_MAX_def)

end
